theory Spec2Isabelle
  imports Main "HOL-Library.Sublist" "HOL-Library.AList"
begin

section \<open>JavaScript text and values\<close>

text \<open>
  A JavaScript string is modelled as a list of code units in the range 0..255
  (\<^typ>\<open>string\<close>).  In that range the characters that \<^verbatim>\<open>String.prototype.trim\<close>
  removes are TAB, LF, VT, FF, CR, SPACE and NO-BREAK SPACE.
\<close>

definition is_ws :: "char \<Rightarrow> bool" where
  "is_ws c = (c \<in> {CHR 0x09, CHR 0x0A, CHR 0x0B, CHR 0x0C, CHR 0x0D, CHR 0x20, CHR 0xA0})"

definition trim :: "string \<Rightarrow> string" where
  "trim s = rev (dropWhile is_ws (rev (dropWhile is_ws s)))"

text \<open>
  Values that reach the code typed as \<^verbatim>\<open>any\<close>: the results of \<^verbatim>\<open>JSON.parse\<close> and
  the values placed in a manifest.  Numbers are kept abstract (\<^typ>\<open>'n\<close>); an object is
  the list of its own properties, each key once, in the order of their creation.
\<close>

datatype 'n jsv =
    JUndefined
  | JNull
  | JBool bool
  | JNum 'n
  | JStr string
  | JArr "'n jsv list"
  | JObj "(string \<times> 'n jsv) list"

text \<open>Property read \<^verbatim>\<open>v.k\<close> / \<^verbatim>\<open>v?.k\<close> for the property names the code uses (none of
  them is inherited from a prototype): the own property, or \<^verbatim>\<open>undefined\<close>.\<close>

fun get_prop :: "'n jsv \<Rightarrow> string \<Rightarrow> 'n jsv" where
  "get_prop (JObj kvs) k = (case map_of kvs k of Some v \<Rightarrow> v | None \<Rightarrow> JUndefined)"
| "get_prop _ k = JUndefined"

section \<open>Installer.tsx: handleInstall\<close>

record 'step InstallManifest =
  appName :: string
  version :: string
  publisher :: string
  description :: string
  logoPath :: "string option"
  advancedMode :: "bool option"
  targets :: "string list"
  payloadDir :: string
  installSteps :: "'step list"

datatype status = Loading | Ready | Installing | Complete | Failed

text \<open>What \<^verbatim>\<open>handleInstall\<close> does to the outside, in order: the dialog it opens (title
  and message), the lines it passes to \<^verbatim>\<open>addLog\<close>, the state it sets and the backend
  command it invokes.\<close>

datatype 'n installer_effect =
    Confirm string string
  | AddLog string
  | SetStatus status
  | SetErrorMsg string
  | Invoke_run_install "'n jsv InstallManifest"

definition digit_char :: "nat \<Rightarrow> char" where
  "digit_char n = ''0123456789'' ! n"

function show_nat :: "nat \<Rightarrow> string" where
  "show_nat n = (if n < 10 then [digit_char n] else show_nat (n div 10) @ [digit_char (n mod 10)])"
  by pat_completeness auto
termination
  by (relation "measure id") auto

declare show_nat.simps [simp del]

definition join :: "string \<Rightarrow> string list \<Rightarrow> string" where
  "join sep xs = (case xs of [] \<Rightarrow> [] | y # ys \<Rightarrow> y @ concat (map (\<lambda>z. sep @ z) ys))"

definition is_runCommand :: "'n jsv \<Rightarrow> bool" where
  "is_runCommand step = (get_prop step ''type'' = JStr ''runCommand'')"

text \<open>\<^verbatim>\<open>commandSteps.map(step => step.command).filter(cmd => typeof cmd === 'string' &&
  cmd.trim().length > 0)\<close>\<close>

definition commands_of :: "'n jsv list \<Rightarrow> string list" where
  "commands_of commandSteps =
     concat (map (\<lambda>step. case get_prop step ''command'' of
                             JStr cmd \<Rightarrow> (if length (trim cmd) > 0 then [cmd] else [])
                           | _ \<Rightarrow> []) commandSteps)"

definition consent_message :: "'n jsv list \<Rightarrow> string" where
  "consent_message commandSteps =
     (let commands = commands_of commandSteps;
          sample = take 5 commands;
          extra = (if length commands > 5
                   then [CHR 0x0A] @ ''...and '' @ show_nat (length commands - 5) @ '' more''
                   else []);
          summary = (if sample \<noteq> [] then [CHR 0x0A] @ join [CHR 0x0A] sample @ extra else [])
      in ''This installer will run system commands.'' @ summary @ [CHR 0x0A, CHR 0x0A] @ ''Continue?'')"

text \<open>
  \<^verbatim>\<open>handleInstall\<close>.  \<open>manifest\<close> is the component's state (\<open>None\<close> while no
  manifest is loaded), \<open>proceed\<close> is the answer the user gives to the dialog, if it is
  asked, and \<open>run_install\<close> is the outcome of the backend command: \<open>Some e\<close> when it
  rejects with \<open>e\<close>.
\<close>

definition run_tail :: "'n jsv InstallManifest \<Rightarrow> string option \<Rightarrow> 'n installer_effect list" where
  "run_tail m run_install =
     [SetStatus Installing, AddLog ''Enacting installation...'', Invoke_run_install m] @
     (case run_install of
        None \<Rightarrow> [SetStatus Complete, AddLog ''Decree enacted.'']
      | Some e \<Rightarrow> [SetStatus Failed, SetErrorMsg (''Enactment failed: '' @ e), AddLog (''Error: '' @ e)])"

definition handleInstall ::
  "'n jsv InstallManifest option \<Rightarrow> bool \<Rightarrow> string option \<Rightarrow> 'n installer_effect list" where
  "handleInstall manifest proceed run_install =
     (case manifest of
        None \<Rightarrow> []
      | Some m \<Rightarrow>
          (let commandSteps = filter is_runCommand (installSteps m) in
           if length commandSteps > 0 then
             Confirm ''Run commands?'' (consent_message commandSteps) #
               (if \<not> proceed then [AddLog ''Installation cancelled by user.'']
                else run_tail m run_install)
           else run_tail m run_install))"

definition invokes_run_install :: "'n installer_effect list \<Rightarrow> bool" where
  "invokes_run_install effects = list_ex (\<lambda>e. case e of Invoke_run_install _ \<Rightarrow> True | _ \<Rightarrow> False) effects"

section \<open>Dashboard.tsx: data\<close>

datatype valueType = VString | VNumber | VBoolean | VJson

text \<open>A \<^verbatim>\<open>ReplacementPair\<close> is the pair (key, value).  In a \<^verbatim>\<open>UiStep\<close> the field
  \<^verbatim>\<open>id\<close> is \<open>step_id\<close> and the field \<^verbatim>\<open>file\<close> is \<open>target_file\<close>; the constructor
  is the field \<^verbatim>\<open>type\<close>.\<close>

type_synonym ReplacementPair = "string \<times> string"

datatype UiStep =
    CopyStep (step_id: string) (enabled: bool)
      (payloadSource: string) (payloadRel: string) (dest: string)
  | PatchBlockStep (step_id: string) (enabled: bool)
      (target_file: string) (startMarker: string) (endMarker: string)
      (contentSource: string) (contentRel: string) (replacements: "ReplacementPair list")
  | SetJsonValueStep (step_id: string) (enabled: bool)
      (target_file: string) (keyPath: string) (valueType: valueType) (valueRaw: string) (valueBool: bool)
  | Base64EmbedStep (step_id: string) (enabled: bool)
      (target_file: string) (placeholder: string) (inputSource: string) (inputRel: string)
  | RunCommandStep (step_id: string) (enabled: bool)
      (command: string) (args: string)

text \<open>
  A step of a manifest, as the Dashboard writes and reads it.  A field is \<open>None\<close>
  when the object has no such property (or \<^verbatim>\<open>undefined\<close>, which \<^verbatim>\<open>JSON.stringify\<close>
  omits); \<open>OtherStep\<close> stands for an object whose \<^verbatim>\<open>type\<close> is none of the five.
\<close>

datatype 'n InstallStep =
    Copy "string option" "string option"
  | PatchBlock "string option" "string option" "string option" "string option"
      "(string \<times> string) list option"
  | SetJsonValue "string option" "string option" "'n jsv"
  | Base64Embed "string option" "string option" "string option"
  | RunCommand "string option" "string list option"
  | OtherStep string

record 'n BuildRequest =
  projectName :: string
  manifest :: "'n InstallStep InstallManifest"
  payloadFiles :: "(string \<times> string) list"
  forceOverwrite :: "bool option"

record BuildTargetInfo =
  path :: string
  exists :: bool
  hasMarker :: bool
  isAbsolute :: bool

datatype IssueLevel = Error | Warning

type_synonym StepIssue = "IssueLevel \<times> string"

text \<open>The form state of the Dashboard component that the handlers read.\<close>

record Dashboard =
  st_projectName :: string
  st_appName :: string
  st_version :: string
  st_publisher :: string
  st_description :: string
  st_advancedMode :: bool
  st_payloadDir :: string
  st_steps :: "UiStep list"

subsection \<open>Built-in conversions\<close>

text \<open>
  The JavaScript built-ins the handlers call.  Whether a string converts to a number is
  computed below from the grammar of ECMAScript's StringNumericLiteral; which number it
  is, how a number prints, and \<^verbatim>\<open>JSON.parse\<close>/\<^verbatim>\<open>JSON.stringify\<close> are parameters.
\<close>

record 'n js_env =
  num_of :: "string \<Rightarrow> 'n"
  num_to_string :: "'n \<Rightarrow> string"
  num_truthy :: "'n \<Rightarrow> bool"
  json_parse :: "string \<Rightarrow> 'n jsv option"
  json_stringify :: "'n jsv \<Rightarrow> string"

definition is_digit :: "char \<Rightarrow> bool" where
  "is_digit c = (c \<in> set ''0123456789'')"

definition signed_integer :: "string \<Rightarrow> bool" where
  "signed_integer r =
     (let ds = (case r of [] \<Rightarrow> [] | c # cs \<Rightarrow> if c = CHR ''+'' \<or> c = CHR ''-'' then cs else r)
      in ds \<noteq> [] \<and> list_all is_digit ds)"

definition exponent_opt :: "string \<Rightarrow> bool" where
  "exponent_opt r =
     (case r of [] \<Rightarrow> True
      | e # r' \<Rightarrow> (e = CHR ''e'' \<or> e = CHR ''E'') \<and> signed_integer r')"

definition unsigned_decimal :: "string \<Rightarrow> bool" where
  "unsigned_decimal t =
     (t = ''Infinity'' \<or>
      (let ds1 = takeWhile is_digit t; r1 = dropWhile is_digit t in
       case r1 of
         c # r2 \<Rightarrow>
           if c = CHR ''.''
           then (let ds2 = takeWhile is_digit r2; r3 = dropWhile is_digit r2
                 in (ds1 \<noteq> [] \<or> ds2 \<noteq> []) \<and> exponent_opt r3)
           else ds1 \<noteq> [] \<and> exponent_opt r1
       | [] \<Rightarrow> ds1 \<noteq> []))"

definition non_decimal_integer :: "string \<Rightarrow> bool" where
  "non_decimal_integer t =
     (case t of
        z # x # ds \<Rightarrow>
          z = CHR ''0'' \<and> ds \<noteq> [] \<and>
          (if x = CHR ''x'' \<or> x = CHR ''X'' then list_all (\<lambda>c. c \<in> set ''0123456789abcdefABCDEF'') ds
           else if x = CHR ''o'' \<or> x = CHR ''O'' then list_all (\<lambda>c. c \<in> set ''01234567'') ds
           else if x = CHR ''b'' \<or> x = CHR ''B'' then list_all (\<lambda>c. c \<in> set ''01'') ds
           else False)
      | _ \<Rightarrow> False)"

definition str_numeric_literal :: "string \<Rightarrow> bool" where
  "str_numeric_literal t =
     (non_decimal_integer t \<or>
      unsigned_decimal (case t of [] \<Rightarrow> [] | c # cs \<Rightarrow> if c = CHR ''+'' \<or> c = CHR ''-'' then cs else t))"

text \<open>\<^verbatim>\<open>Number(s)\<close> for a string \<open>s\<close>; \<open>None\<close> is NaN.  Blank text converts to 0.\<close>

definition Number :: "'n js_env \<Rightarrow> string \<Rightarrow> 'n option" where
  "Number js s =
     (let t = trim s in
      if t = [] \<or> str_numeric_literal t then Some (num_of js t) else None)"

text \<open>\<^verbatim>\<open>JSON.parse(raw || 'null')\<close>; \<open>None\<close> is the SyntaxError it throws.\<close>

definition parse_or_null :: "'n js_env \<Rightarrow> string \<Rightarrow> 'n jsv option" where
  "parse_or_null js raw = json_parse js (if raw = [] then ''null'' else raw)"

subsection \<open>Path helpers\<close>

definition is_sep :: "char \<Rightarrow> bool" where
  "is_sep c = (c = CHR 0x5C \<or> c = CHR ''/'')"

text \<open>\<^verbatim>\<open>s.replace(/[\\/]+$/, '')\<close> and \<^verbatim>\<open>s.replace(/^[\\/]+/, '')\<close>\<close>

definition strip_trailing_seps :: "string \<Rightarrow> string" where
  "strip_trailing_seps s = rev (dropWhile is_sep (rev s))"

definition strip_leading_seps :: "string \<Rightarrow> string" where
  "strip_leading_seps s = dropWhile is_sep s"

definition toBaseName :: "string \<Rightarrow> string" where
  "toBaseName pathStr =
     (let cleaned = strip_trailing_seps pathStr;
          base = rev (takeWhile (\<lambda>c. \<not> is_sep c) (rev cleaned))
      in if base = [] then ''file'' else base)"

text \<open>\<^verbatim>\<open>placeholderPattern = /<[^>]+>/\<close>, tested anywhere in the string.\<close>

fun placeholderPattern_test :: "string \<Rightarrow> bool" where
  "placeholderPattern_test [] = False"
| "placeholderPattern_test (c # cs) =
     ((c = CHR ''<'' \<and>
       (let body = takeWhile (\<lambda>x. x \<noteq> CHR ''>'') cs in body \<noteq> [] \<and> length body < length cs))
      \<or> placeholderPattern_test cs)"

definition joinPathFragments :: "string \<Rightarrow> string \<Rightarrow> string" where
  "joinPathFragments base rel =
     (let baseClean = strip_trailing_seps base;
          relClean = strip_leading_seps rel in
      if baseClean = [] then relClean
      else if relClean = [] then baseClean
      else baseClean @ (if CHR 0x5C \<in> set baseClean then [CHR 0x5C] else ''/'') @ relClean)"

definition is_ascii_letter :: "char \<Rightarrow> bool" where
  "is_ascii_letter c = (c \<in> set ''abcdefghijklmnopqrstuvwxyzABCDEFGHIJKLMNOPQRSTUVWXYZ'')"

text \<open>\<^verbatim>\<open>/^[a-zA-Z]:[\\/]/.test(value) || value.startsWith('\\\\') || value.startsWith('/')\<close>\<close>

definition isAbsolutePath :: "string \<Rightarrow> bool" where
  "isAbsolutePath v =
     ((case v of a # b # c # _ \<Rightarrow> is_ascii_letter a \<and> b = CHR '':'' \<and> is_sep c | _ \<Rightarrow> False)
      \<or> prefix [CHR 0x5C, CHR 0x5C] v \<or> prefix ''/'' v)"

text \<open>\<^verbatim>\<open>resolvePayloadSource(payloadDir, rel)\<close>; an argument that is \<^verbatim>\<open>undefined\<close> is
  \<open>None\<close>.\<close>

definition resolvePayloadSource :: "string option \<Rightarrow> string option \<Rightarrow> string" where
  "resolvePayloadSource pdir rel =
     (let cleanedRel = trim (case rel of None \<Rightarrow> [] | Some r \<Rightarrow> r) in
      case pdir of
        None \<Rightarrow> []
      | Some base \<Rightarrow>
          if base = [] \<or> cleanedRel = [] then []
          else if placeholderPattern_test cleanedRel then []
          else if isAbsolutePath cleanedRel then cleanedRel
          else joinPathFragments base cleanedRel)"

subsection \<open>Inside the payload directory\<close>

text \<open>
  What "inside \<^verbatim>\<open>payloadDir\<close>" means for a path, read lexically: the path's segments
  (the non-empty pieces between separators) begin with those of the directory, and the
  remaining segments never climb above it through \<^verbatim>\<open>..\<close>.
\<close>

fun segs :: "string \<Rightarrow> string \<Rightarrow> string list" where
  "segs cur [] = (if cur = [] then [] else [rev cur])"
| "segs cur (c # cs) =
     (if is_sep c then (if cur = [] then [] else [rev cur]) @ segs [] cs
      else segs (c # cur) cs)"

definition segments :: "string \<Rightarrow> string list" where
  "segments p = segs [] p"

fun stays_below :: "nat \<Rightarrow> string list \<Rightarrow> bool" where
  "stays_below depth [] = True"
| "stays_below depth (s # ss) =
     (if s = ''.'' then stays_below depth ss
      else if s = ''..'' then (depth > 0 \<and> stays_below (depth - 1) ss)
      else stays_below (Suc depth) ss)"

definition inside_dir :: "string \<Rightarrow> string \<Rightarrow> bool" where
  "inside_dir base p =
     (prefix (segments base) (segments p)
      \<and> stays_below 0 (drop (length (segments base)) (segments p)))"

subsection \<open>Objects built from replacement pairs\<close>

text \<open>
  \<^verbatim>\<open>pairs.filter(pair => pair.key.trim().length > 0).reduce((acc, pair) => { acc[pair.key] =
  pair.value; return acc; }, {})\<close>.  The object is the list of its own properties in the
  order they were created; assigning an existing key keeps its place, and assigning a
  string to \<^verbatim>\<open>__proto__\<close> creates no property.
\<close>

definition obj_set :: "(string \<times> 'a) list \<Rightarrow> string \<Rightarrow> 'a \<Rightarrow> (string \<times> 'a) list" where
  "obj_set acc k v = (if k = ''__proto__'' then acc else AList.update k v acc)"

definition replacements_object :: "ReplacementPair list \<Rightarrow> (string \<times> string) list" where
  "replacements_object pairs =
     foldl (\<lambda>acc pair. obj_set acc (fst pair) (snd pair)) []
       (filter (\<lambda>pair. length (trim (fst pair)) > 0) pairs)"

text \<open>\<^verbatim>\<open>Object.keys(replacements).length ? replacements : undefined\<close>\<close>

definition replacements_field :: "ReplacementPair list \<Rightarrow> (string \<times> string) list option" where
  "replacements_field pairs =
     (let obj = replacements_object pairs in if obj \<noteq> [] then Some obj else None)"

text \<open>
  \<^verbatim>\<open>Object.entries\<close> enumerates the keys that are canonical array indices first, in
  ascending numeric order, then the other keys in creation order.
\<close>

definition nat_of_digits :: "string \<Rightarrow> nat" where
  "nat_of_digits s = foldl (\<lambda>n c. 10 * n + (of_char c - 48)) 0 s"

definition is_array_index :: "string \<Rightarrow> bool" where
  "is_array_index s =
     (s \<noteq> [] \<and> list_all is_digit s \<and> (s = ''0'' \<or> hd s \<noteq> CHR ''0'')
      \<and> nat_of_digits s < 4294967295)"

definition Object_entries :: "(string \<times> 'a) list \<Rightarrow> (string \<times> 'a) list" where
  "Object_entries obj =
     sort_key (\<lambda>kv. nat_of_digits (fst kv)) (filter (\<lambda>kv. is_array_index (fst kv)) obj)
     @ filter (\<lambda>kv. \<not> is_array_index (fst kv)) obj"

text \<open>\<^verbatim>\<open>s.split(',').map(arg => arg.trim()).filter(Boolean)\<close>\<close>

fun split_on :: "char \<Rightarrow> string \<Rightarrow> string list" where
  "split_on d [] = [[]]"
| "split_on d (c # cs) =
     (if c = d then [] # split_on d cs
      else (case split_on d cs of x # xs \<Rightarrow> (c # x) # xs | [] \<Rightarrow> [[c]]))"

definition split_args :: "string \<Rightarrow> string list" where
  "split_args a = filter (\<lambda>x. x \<noteq> []) (map trim (split_on CHR '','' a))"

section \<open>Dashboard.tsx: handleBuild\<close>

record 'n build_acc =
  payloadMap :: "(string \<times> string) list"
  built :: "'n InstallStep list"
  errors :: "string list"

definition push_error :: "string \<Rightarrow> 'n build_acc \<Rightarrow> 'n build_acc" where
  "push_error e acc = acc\<lparr>errors := errors acc @ [e]\<rparr>"

definition push_step :: "'n InstallStep \<Rightarrow> 'n build_acc \<Rightarrow> 'n build_acc" where
  "push_step s acc = acc\<lparr>built := built acc @ [s]\<rparr>"

text \<open>\<^verbatim>\<open>addPayload\<close>: \<^verbatim>\<open>payloadMap\<close> is a \<^verbatim>\<open>Map\<close>, kept as the list of its entries in
  insertion order.\<close>

definition addPayload :: "string \<Rightarrow> string \<Rightarrow> 'n build_acc \<Rightarrow> 'n build_acc" where
  "addPayload rel source acc =
     (let cleaned = trim rel in
      if cleaned = [] then push_error ''A payload path cannot be empty.'' acc
      else if map_of (payloadMap acc) cleaned \<noteq> None
              \<and> map_of (payloadMap acc) cleaned \<noteq> Some source
      then push_error (''A payload path is already claimed: '' @ cleaned) acc
      else acc\<lparr>payloadMap := AList.update cleaned source (payloadMap acc)\<rparr>)"

text \<open>\<^verbatim>\<open>a || b\<close> on strings.\<close>

definition or_else :: "string \<Rightarrow> string \<Rightarrow> string" where
  "or_else a b = (if a = [] then b else a)"

text \<open>The body of the loop \<^verbatim>\<open>for (const step of steps)\<close> of \<^verbatim>\<open>handleBuild\<close>.\<close>

definition build_step :: "'n js_env \<Rightarrow> 'n build_acc \<Rightarrow> UiStep \<Rightarrow> 'n build_acc" where
  "build_step js acc step =
     (if \<not> enabled step then acc
      else case step of
        CopyStep _ _ psrc prel d \<Rightarrow>
          (let source = trim psrc; dst = trim d in
           if source = [] then push_error ''A copy decree is missing a source file or folder.'' acc
           else if dst = [] then push_error ''A copy decree is missing a destination path.'' acc
           else (let rel = or_else (trim prel) (toBaseName source) in
                 push_step (Copy (Some rel) (Some dst)) (addPayload rel source acc)))
      | PatchBlockStep _ _ f sm em csrc crel repl \<Rightarrow>
          (let target = trim f; sm' = trim sm; em' = trim em; contentSrc = trim csrc in
           if target = [] then push_error ''A patch decree is missing the target file.'' acc
           else if sm' = [] then push_error ''A patch decree is missing a start marker.'' acc
           else if em' = [] then push_error ''A patch decree is missing an end marker.'' acc
           else if contentSrc = [] then push_error ''A patch decree is missing a content file.'' acc
           else (let rel = or_else (trim crel) (toBaseName contentSrc) in
                 push_step (PatchBlock (Some target) (Some sm') (Some em') (Some rel)
                              (replacements_field repl))
                   (addPayload rel contentSrc acc)))
      | SetJsonValueStep _ _ f kp vt raw vb \<Rightarrow>
          (let target = trim f; kp' = trim kp in
           if target = [] then push_error ''A JSON decree is missing the target file.'' acc
           else if kp' = [] then push_error ''A JSON decree is missing the key path.'' acc
           else (case vt of
                   VNumber \<Rightarrow>
                     (case Number js raw of
                        None \<Rightarrow> push_error ''A JSON decree number is invalid.'' acc
                      | Some parsed \<Rightarrow> push_step (SetJsonValue (Some target) (Some kp') (JNum parsed)) acc)
                 | VBoolean \<Rightarrow> push_step (SetJsonValue (Some target) (Some kp') (JBool vb)) acc
                 | VJson \<Rightarrow>
                     (case parse_or_null js raw of
                        None \<Rightarrow> push_error ''A JSON decree is not valid JSON.'' acc
                      | Some v \<Rightarrow> push_step (SetJsonValue (Some target) (Some kp') v) acc)
                 | VString \<Rightarrow> push_step (SetJsonValue (Some target) (Some kp') (JStr raw)) acc))
      | Base64EmbedStep _ _ f ph isrc irel \<Rightarrow>
          (let target = trim f; ph' = trim ph; inputSrc = trim isrc in
           if target = [] then push_error ''A seal embed decree is missing the target file.'' acc
           else if ph' = [] then push_error ''A seal embed decree is missing the placeholder.'' acc
           else if inputSrc = [] then push_error ''A seal embed decree is missing the input file.'' acc
           else (let rel = or_else (trim irel) (toBaseName inputSrc) in
                 push_step (Base64Embed (Some target) (Some ph') (Some rel))
                   (addPayload rel inputSrc acc)))
      | RunCommandStep _ _ cmd a \<Rightarrow>
          (let cmd' = trim cmd in
           if cmd' = [] then push_error ''A command decree is missing the command.'' acc
           else push_step (RunCommand (Some cmd') (Some (split_args a))) acc))"

definition collect :: "'n js_env \<Rightarrow> UiStep list \<Rightarrow> 'n build_acc" where
  "collect js ss = foldl (build_step js) \<lparr>payloadMap = [], built = [], errors = []\<rparr> ss"

text \<open>\<^verbatim>\<open>payloadDirValue = payloadDir.trim() || 'payloads'\<close>\<close>

definition payloadDirValue :: "Dashboard \<Rightarrow> string" where
  "payloadDirValue st = or_else (trim (st_payloadDir st)) ''payloads''"

definition manifest_of :: "Dashboard \<Rightarrow> 'n InstallStep list \<Rightarrow> 'n InstallStep InstallManifest" where
  "manifest_of st ss =
     \<lparr>appName = st_appName st, version = st_version st, publisher = st_publisher st,
      description = st_description st, logoPath = None, advancedMode = Some (st_advancedMode st),
      targets = [], payloadDir = payloadDirValue st, installSteps = ss\<rparr>"

text \<open>
  What \<^verbatim>\<open>handleBuild\<close> does to the outside, in order.  A dialog is identified by its
  title and message.
\<close>

datatype 'n dashboard_effect =
    SetBuilding bool
  | SetLogs string
  | ConfirmDialog string string
  | Invoke_inspect_build_target "'n BuildRequest"
  | Invoke_build_project "'n BuildRequest"

text \<open>
  The overwrite policy of \<^verbatim>\<open>handleBuild\<close> (the block \<^verbatim>\<open>if (target.exists) ...\<close>):
  the dialogs shown, each with its title and message, and \<^verbatim>\<open>forceOverwrite\<close> when the
  build goes on, \<open>None\<close> when the handler returns.  \<open>answer\<close> gives the user's
  reply to the dialog with a given title.
\<close>

definition overwrite_policy ::
  "BuildTargetInfo \<Rightarrow> (string \<Rightarrow> bool) \<Rightarrow> (string \<times> string) list \<times> bool option" where
  "overwrite_policy target answer =
     (if exists target then
        if isAbsolute target \<and> \<not> hasMarker target then
          (let d1 = (''No marker found'',
                     ''The output folder exists but does not contain a .misfit-studio marker:''
                     @ [CHR 0x0A] @ path target @ [CHR 0x0A, CHR 0x0A] @ ''Do you want to continue?'');
               d2 = (''Delete existing folder?'',
                     ''This will delete the entire folder and its contents before building the new installer. Continue?'')
           in if \<not> answer ''No marker found'' then ([d1], None)
              else if \<not> answer ''Delete existing folder?'' then ([d1, d2], None)
              else ([d1, d2], Some True))
        else
          (let d = (''Overwrite existing build?'',
                    ''The output folder already exists:'' @ [CHR 0x0A] @ path target
                    @ [CHR 0x0A, CHR 0x0A] @ ''Do you want to replace it?'')
           in if \<not> answer ''Overwrite existing build?'' then ([d], None)
              else ([d], Some True))
      else ([], Some False))"

definition show_dialogs :: "(string \<times> string) list \<Rightarrow> 'n dashboard_effect list" where
  "show_dialogs ds = map (\<lambda>d. ConfirmDialog (fst d) (snd d)) ds"

text \<open>
  \<^verbatim>\<open>handleBuild\<close>.  \<open>inspect\<close> and \<open>build\<close> are the backend commands
  \<^verbatim>\<open>inspect_build_target\<close> and \<^verbatim>\<open>build_project\<close> (\<open>Inl e\<close>: the call rejects with
  \<open>e\<close>).  The last \<open>SetBuilding False\<close> is the \<^verbatim>\<open>finally\<close> block.
\<close>

definition build_request :: "Dashboard \<Rightarrow> 'n build_acc \<Rightarrow> bool option \<Rightarrow> 'n BuildRequest" where
  "build_request st acc force =
     \<lparr>projectName = st_projectName st, manifest = manifest_of st (built acc),
      payloadFiles = map (\<lambda>(rel, src). (src, rel)) (payloadMap acc), forceOverwrite = force\<rparr>"

definition handleBuild ::
  "'n js_env \<Rightarrow> Dashboard \<Rightarrow> ('n BuildRequest \<Rightarrow> string + BuildTargetInfo) \<Rightarrow>
   ('n BuildRequest \<Rightarrow> string + string) \<Rightarrow> (string \<Rightarrow> bool) \<Rightarrow> 'n dashboard_effect list" where
  "handleBuild js st inspect build answer =
     [SetBuilding True, SetLogs ''Summoning the forge...''] @
     (let acc = collect js (st_steps st) in
      if errors acc \<noteq> [] then
        [SetLogs (''Forge failed: Error: '' @ join '' '' (errors acc))]
      else
        Invoke_inspect_build_target (build_request st acc None) #
        (case inspect (build_request st acc None) of
           Inl e \<Rightarrow> [SetLogs (''Forge failed: '' @ e)]
         | Inr target \<Rightarrow>
             (case overwrite_policy target answer of
                (dialogs, None) \<Rightarrow> show_dialogs dialogs @ [SetBuilding False]
              | (dialogs, Some force) \<Rightarrow>
                  show_dialogs dialogs @ [Invoke_build_project (build_request st acc (Some force))] @
                  (case build (build_request st acc (Some force)) of
                     Inl e \<Rightarrow> [SetLogs (''Forge failed: '' @ e)]
                   | Inr p \<Rightarrow> [SetLogs (''Decree forged. Output at: '' @ p)]))))
     @ [SetBuilding False]"

definition is_backend_call :: "'n dashboard_effect \<Rightarrow> bool" where
  "is_backend_call e =
     (case e of Invoke_inspect_build_target _ \<Rightarrow> True | Invoke_build_project _ \<Rightarrow> True | _ \<Rightarrow> False)"

definition is_build_call :: "'n dashboard_effect \<Rightarrow> bool" where
  "is_build_call e = (case e of Invoke_build_project _ \<Rightarrow> True | _ \<Rightarrow> False)"

text \<open>The titles of the dialogs shown, and the \<^verbatim>\<open>forceOverwrite\<close> of every
  \<^verbatim>\<open>build_project\<close> request sent, in order.\<close>

definition dialog_titles :: "'n dashboard_effect list \<Rightarrow> string list" where
  "dialog_titles es = concat (map (\<lambda>e. case e of ConfirmDialog t _ \<Rightarrow> [t] | _ \<Rightarrow> []) es)"

definition build_calls :: "'n dashboard_effect list \<Rightarrow> bool option list" where
  "build_calls es =
     concat (map (\<lambda>e. case e of Invoke_build_project r \<Rightarrow> [forceOverwrite r] | _ \<Rightarrow> []) es)"

subsection \<open>The payload that a step stages\<close>

text \<open>
  The payload-relative path and the source that the loop of \<^verbatim>\<open>handleBuild\<close> computes for
  a copy, patchBlock or base64Embed step (\<^verbatim>\<open>rel\<close> and the trimmed source field).
\<close>

definition staged_rel :: "UiStep \<Rightarrow> string" where
  "staged_rel step =
     (case step of
        CopyStep _ _ psrc prel d \<Rightarrow> or_else (trim prel) (toBaseName (trim psrc))
      | PatchBlockStep _ _ f sm em csrc crel repl \<Rightarrow> or_else (trim crel) (toBaseName (trim csrc))
      | Base64EmbedStep _ _ f ph isrc irel \<Rightarrow> or_else (trim irel) (toBaseName (trim isrc))
      | _ \<Rightarrow> [])"

definition staged_source :: "UiStep \<Rightarrow> string" where
  "staged_source step =
     (case step of
        CopyStep _ _ psrc prel d \<Rightarrow> trim psrc
      | PatchBlockStep _ _ f sm em csrc crel repl \<Rightarrow> trim csrc
      | Base64EmbedStep _ _ f ph isrc irel \<Rightarrow> trim isrc
      | _ \<Rightarrow> [])"

text \<open>The step is enabled, of one of the three kinds, and passes the checks of its
  required fields, so that the loop calls \<^verbatim>\<open>addPayload\<close> for it.\<close>

definition reaches_addPayload :: "UiStep \<Rightarrow> bool" where
  "reaches_addPayload step =
     (enabled step \<and>
      (case step of
        CopyStep _ _ psrc prel d \<Rightarrow> trim psrc \<noteq> [] \<and> trim d \<noteq> []
      | PatchBlockStep _ _ f sm em csrc crel repl \<Rightarrow>
          trim f \<noteq> [] \<and> trim sm \<noteq> [] \<and> trim em \<noteq> [] \<and> trim csrc \<noteq> []
      | Base64EmbedStep _ _ f ph isrc irel \<Rightarrow> trim f \<noteq> [] \<and> trim ph \<noteq> [] \<and> trim isrc \<noteq> []
      | _ \<Rightarrow> False))"

text \<open>The entry that the step asks \<^verbatim>\<open>addPayload\<close> to put into \<^verbatim>\<open>payloadMap\<close>: the trimmed
  path, which must not be empty, and the source.\<close>

definition staged :: "UiStep \<Rightarrow> (string \<times> string) option" where
  "staged step =
     (if reaches_addPayload step \<and> trim (staged_rel step) \<noteq> []
      then Some (trim (staged_rel step), staged_source step) else None)"

definition already_claimed :: "'n build_acc \<Rightarrow> string \<Rightarrow> string \<Rightarrow> bool" where
  "already_claimed acc c src =
     (map_of (payloadMap acc) c \<noteq> None \<and> map_of (payloadMap acc) c \<noteq> Some src)"

section \<open>Dashboard.tsx: validation\<close>

text \<open>\<^verbatim>\<open>toLowerCase\<close> on the code units 0..255: the letters A-Z and the Latin-1 capitals.\<close>

definition to_lower :: "char \<Rightarrow> char" where
  "to_lower c =
     (let n = (of_char c :: nat) in
      if (65 \<le> n \<and> n \<le> 90) \<or> (192 \<le> n \<and> n \<le> 222 \<and> n \<noteq> 215) then char_of (n + 32) else c)"

text \<open>The issues that the memo \<^verbatim>\<open>validation\<close> pushes for one step, in order.\<close>

definition step_issues :: "'n js_env \<Rightarrow> UiStep \<Rightarrow> StepIssue list" where
  "step_issues js step =
     (if \<not> enabled step then []
      else case step of
        CopyStep _ _ psrc prel d \<Rightarrow>
          (if trim psrc = [] then [(Error, ''Copy decree is missing a source.'')] else []) @
          (if trim d = [] then [(Error, ''Copy decree is missing a destination path.'')] else []) @
          (if placeholderPattern_test d then [(Warning, ''Destination path contains a placeholder.'')] else [])
      | PatchBlockStep _ _ f sm em csrc crel repl \<Rightarrow>
          (if trim f = [] then [(Error, ''Patch decree is missing the target file.'')] else []) @
          (if trim sm = [] \<or> trim em = [] then [(Error, ''Patch decree needs both start/end markers.'')] else []) @
          (if trim csrc = [] then [(Error, ''Patch decree is missing a content file.'')] else []) @
          (if placeholderPattern_test f then [(Warning, ''Target file contains a placeholder.'')] else [])
      | SetJsonValueStep _ _ f kp vt raw vb \<Rightarrow>
          (if trim f = [] then [(Error, ''JSON decree is missing the target file.'')] else []) @
          (if f \<noteq> [] \<and> \<not> suffix ''.json'' (map to_lower (trim f))
           then [(Warning, ''JSON decree target does not end in .json.'')] else []) @
          (if trim kp = [] then [(Error, ''JSON decree is missing the key path.'')] else []) @
          (if vt = VNumber \<and> Number js raw = None
           then [(Error, ''JSON number value is invalid.'')] else []) @
          (if vt = VJson \<and> parse_or_null js raw = None
           then [(Error, ''JSON value is not valid JSON.'')] else []) @
          (if placeholderPattern_test f then [(Warning, ''JSON target file contains a placeholder.'')] else [])
      | Base64EmbedStep _ _ f ph isrc irel \<Rightarrow>
          (if trim f = [] then [(Error, ''Seal embed is missing the target file.'')] else []) @
          (if trim ph = [] then [(Error, ''Seal embed is missing the placeholder.'')] else []) @
          (if trim isrc = [] then [(Error, ''Seal embed is missing the input file.'')] else []) @
          (if placeholderPattern_test f then [(Warning, ''Embed target file contains a placeholder.'')] else [])
      | RunCommandStep _ _ cmd a \<Rightarrow>
          (if trim cmd = [] then [(Error, ''Command decree is missing the command.'')] else []))"

text \<open>All the calls of \<^verbatim>\<open>pushIssue(id, level, message)\<close>, in order.\<close>

definition pushed_issues :: "'n js_env \<Rightarrow> UiStep list \<Rightarrow> (string \<times> StepIssue) list" where
  "pushed_issues js ss = concat (map (\<lambda>s. map (\<lambda>i. (step_id s, i)) (step_issues js s)) ss)"

record Validation =
  issueMap :: "string \<Rightarrow> StepIssue list"
  errorCount :: nat
  warningCount :: nat

definition validation :: "'n js_env \<Rightarrow> UiStep list \<Rightarrow> Validation" where
  "validation js ss =
     (let pushed = pushed_issues js ss in
      \<lparr>issueMap = (\<lambda>i. map snd (filter (\<lambda>p. fst p = i) pushed)),
       errorCount = length (filter (\<lambda>p. fst (snd p) = Error) pushed),
       warningCount = length (filter (\<lambda>p. fst (snd p) = Warning) pushed)\<rparr>)"

section \<open>Dashboard.tsx: manifest export and import\<close>

text \<open>What one iteration of the loop of \<^verbatim>\<open>buildManifestForExport\<close> pushes.\<close>

definition export_step :: "'n js_env \<Rightarrow> UiStep \<Rightarrow> 'n InstallStep list" where
  "export_step js step =
     (if \<not> enabled step then []
      else case step of
        CopyStep _ _ psrc prel d \<Rightarrow>
          (let rel = or_else (trim prel) (if psrc \<noteq> [] then toBaseName psrc else []) in
           if rel = [] \<and> trim d = [] then []
           else [Copy (Some rel) (Some (trim d))])
      | PatchBlockStep _ _ f sm em csrc crel repl \<Rightarrow>
          (if trim f = [] \<and> trim crel = [] \<and> trim csrc = [] then []
           else (let rel = or_else (trim crel) (if csrc \<noteq> [] then toBaseName csrc else []) in
                 [PatchBlock (Some (trim f)) (Some (trim sm)) (Some (trim em)) (Some rel)
                    (replacements_field repl)]))
      | SetJsonValueStep _ _ f kp vt raw vb \<Rightarrow>
          (if trim f = [] \<and> trim kp = [] \<and> trim raw = [] then []
           else (let v = (case vt of
                            VNumber \<Rightarrow> (case Number js raw of None \<Rightarrow> JStr raw | Some parsed \<Rightarrow> JNum parsed)
                          | VBoolean \<Rightarrow> JBool vb
                          | VJson \<Rightarrow> (case parse_or_null js raw of None \<Rightarrow> JStr raw | Some parsed \<Rightarrow> parsed)
                          | VString \<Rightarrow> JStr raw)
                 in [SetJsonValue (Some (trim f)) (Some (trim kp)) v]))
      | Base64EmbedStep _ _ f ph isrc irel \<Rightarrow>
          (if trim f = [] \<and> trim irel = [] \<and> trim isrc = [] then []
           else (let rel = or_else (trim irel) (if isrc \<noteq> [] then toBaseName isrc else []) in
                 [Base64Embed (Some (trim f)) (Some (trim ph)) (Some rel)]))
      | RunCommandStep _ _ cmd a \<Rightarrow>
          (if trim cmd = [] \<and> trim a = [] then []
           else [RunCommand (Some (trim cmd)) (Some (split_args a))]))"

definition buildManifestForExport :: "'n js_env \<Rightarrow> Dashboard \<Rightarrow> 'n InstallStep InstallManifest" where
  "buildManifestForExport js st = manifest_of st (concat (map (export_step js) (st_steps st)))"

text \<open>
  \<^verbatim>\<open>handleExportManifest\<close>: \<open>chosen\<close> is the path picked in the save dialog, if any;
  the contents written are \<^verbatim>\<open>JSON.stringify(manifest, null, 2)\<close>, and \<open>write\<close> is the
  outcome of \<^verbatim>\<open>write_text_file\<close>.
\<close>

datatype 'n export_effect =
    SaveDialog string
  | Invoke_write_text_file string "'n InstallStep InstallManifest"
  | ExportLog string

definition handleExportManifest ::
  "'n js_env \<Rightarrow> Dashboard \<Rightarrow> string option \<Rightarrow> string option \<Rightarrow> 'n export_effect list" where
  "handleExportManifest js st chosen write =
     SaveDialog ''install.manifest.json'' #
     (case chosen of
        None \<Rightarrow> []
      | Some filePath \<Rightarrow>
          (if filePath = [] then []
           else Invoke_write_text_file filePath (buildManifestForExport js st) #
                (case write of
                   None \<Rightarrow> [ExportLog (''Manifest exported to '' @ filePath)]
                 | Some e \<Rightarrow> [ExportLog (''Manifest export failed: '' @ e)])))"

text \<open>\<^verbatim>\<open>valueToUi\<close>: the triple (valueType, valueRaw, valueBool).\<close>

definition valueToUi :: "'n js_env \<Rightarrow> 'n jsv \<Rightarrow> valueType \<times> string \<times> bool" where
  "valueToUi js v =
     (case v of
        JBool b \<Rightarrow> (VBoolean, [], b)
      | JNum n \<Rightarrow> (VNumber, num_to_string js n, False)
      | JStr s \<Rightarrow> (VString, s, False)
      | JUndefined \<Rightarrow> (VJson, json_stringify js JNull, False)
      | _ \<Rightarrow> (VJson, json_stringify js v, False))"

definition str_or_empty :: "string option \<Rightarrow> string" where
  "str_or_empty x = (case x of None \<Rightarrow> [] | Some s \<Rightarrow> s)"

text \<open>\<^verbatim>\<open>manifestStepToUi(step, payloadDir)\<close>; \<open>new_id\<close> is the value \<^verbatim>\<open>makeId()\<close> returns.\<close>

definition manifestStepToUi ::
  "'n js_env \<Rightarrow> string \<Rightarrow> 'n InstallStep \<Rightarrow> string option \<Rightarrow> UiStep option" where
  "manifestStepToUi js new_id step pdir =
     (case step of
        Copy src d \<Rightarrow>
          (let rel = str_or_empty src in
           Some (CopyStep new_id True (resolvePayloadSource pdir (Some rel)) rel (str_or_empty d)))
      | PatchBlock f sm em cf repl \<Rightarrow>
          (let rel = str_or_empty cf;
               pairs = (case repl of None \<Rightarrow> [] | Some obj \<Rightarrow> Object_entries obj) in
           Some (PatchBlockStep new_id True (str_or_empty f) (str_or_empty sm) (str_or_empty em)
                   (resolvePayloadSource pdir (Some rel)) rel pairs))
      | SetJsonValue f kp v \<Rightarrow>
          (case valueToUi js v of (vt, raw, vb) \<Rightarrow>
             Some (SetJsonValueStep new_id True (str_or_empty f) (str_or_empty kp) vt raw vb))
      | Base64Embed f ph inp \<Rightarrow>
          (let rel = str_or_empty inp in
           Some (Base64EmbedStep new_id True (str_or_empty f) (str_or_empty ph)
                   (resolvePayloadSource pdir (Some rel)) rel))
      | RunCommand cmd a \<Rightarrow>
          Some (RunCommandStep new_id True (str_or_empty cmd)
                  (case a of None \<Rightarrow> [] | Some xs \<Rightarrow> join '', '' xs))
      | OtherStep _ \<Rightarrow> None)"

text \<open>
  \<^verbatim>\<open>installSteps.map(step => manifestStepToUi(step, payloadDir)).filter(step => step !==
  null)\<close>; \<open>makeId n\<close> is the result of the \<open>n\<close>-th call of \<^verbatim>\<open>makeId\<close>.
\<close>

fun incoming_steps ::
  "'n js_env \<Rightarrow> (nat \<Rightarrow> string) \<Rightarrow> nat \<Rightarrow> string option \<Rightarrow> 'n InstallStep list \<Rightarrow> UiStep list" where
  "incoming_steps js makeId n pdir [] = []"
| "incoming_steps js makeId n pdir (s # ss) =
     (case manifestStepToUi js (makeId n) s pdir of
        None \<Rightarrow> incoming_steps js makeId n pdir ss
      | Some u \<Rightarrow> u # incoming_steps js makeId (Suc n) pdir ss)"

definition applyManifest ::
  "'n js_env \<Rightarrow> (nat \<Rightarrow> string) \<Rightarrow> 'n InstallStep InstallManifest \<Rightarrow> Dashboard \<Rightarrow> Dashboard" where
  "applyManifest js makeId m st =
     st\<lparr>st_appName := appName m, st_version := version m, st_publisher := publisher m,
        st_description := description m,
        st_advancedMode := (case advancedMode m of Some b \<Rightarrow> b | None \<Rightarrow> False),
        st_payloadDir := payloadDir m,
        st_steps := incoming_steps js makeId 0 (Some (payloadDir m)) (installSteps m)\<rparr>"

section \<open>The patch scripts: apply-macos.sh and apply.ps1\<close>

text \<open>
  Both scripts patch a block between two markers with a regular expression made of the
  quoted start marker, a lazy \<^verbatim>\<open>.*?\<close> that also crosses line ends, and the quoted end
  marker.  \<open>find_sub pat doc\<close> splits \<open>doc\<close> at the first occurrence of \<open>pat\<close>.  The
  leftmost match of the expression, if there is one, begins at the first occurrence of the
  start marker and ends with the first occurrence of the end marker after it.
\<close>

fun find_sub :: "string \<Rightarrow> string \<Rightarrow> (string \<times> string) option" where
  "find_sub pat [] = (if pat = [] then Some ([], []) else None)"
| "find_sub pat (c # cs) =
     (if prefix pat (c # cs) then Some ([], drop (length pat) (c # cs))
      else map_option (\<lambda>(before, after). (c # before, after)) (find_sub pat cs))"

definition match_block :: "string \<Rightarrow> string \<Rightarrow> string \<Rightarrow> (string \<times> string \<times> string) option" where
  "match_block s e doc =
     (case find_sub s doc of
        None \<Rightarrow> None
      | Some (pre, rest) \<Rightarrow>
          (case find_sub e rest of
             None \<Rightarrow> None
           | Some (mid, post) \<Rightarrow> Some (pre, mid, post)))"

text \<open>A file system: the text of each file that exists.\<close>

type_synonym files = "string \<rightharpoonup> string"

subsection \<open>apply-macos.sh\<close>

text \<open>The lines of a text as \<^verbatim>\<open>grep\<close> reads them.\<close>

fun lines_acc :: "string \<Rightarrow> string \<Rightarrow> string list" where
  "lines_acc cur [] = (if cur = [] then [] else [rev cur])"
| "lines_acc cur (c # cs) =
     (if c = CHR 0x0A then rev cur # lines_acc [] cs else lines_acc (c # cur) cs)"

text \<open>
  \<^verbatim>\<open>grep -qF "$start_marker" "$path"\<close>.  An argument that begins with a dash and is
  longer than the dash alone is read by \<^verbatim>\<open>grep\<close> as options and is not the pattern: an
  unknown option ends \<^verbatim>\<open>grep\<close> with status 2, other texts make it search for another
  pattern.  Whether it ends with status 0 then depends on the \<^verbatim>\<open>grep\<close> at hand; it is
  the parameter \<open>dashed\<close>, asked with the marker and the text of the file.  Any other
  marker is the pattern: some line of the file contains one of its newline-separated
  fixed strings.
\<close>

definition option_like :: "string \<Rightarrow> bool" where
  "option_like s = (prefix ''-'' s \<and> s \<noteq> ''-'')"

definition grep_qF :: "(string \<Rightarrow> string \<Rightarrow> bool) \<Rightarrow> string \<Rightarrow> string \<Rightarrow> bool" where
  "grep_qF dashed pat doc =
     (if option_like pat then dashed pat doc
      else list_ex (\<lambda>line. list_ex (\<lambda>p. sublist p line) (split_on (CHR 0x0A) pat))
             (lines_acc [] doc))"

text \<open>\<^verbatim>\<open>perl -0777 -pe 's/\Q$ENV{START_MARKER}\E.*?\Q$ENV{END_MARKER}\E/$block/s'\<close>: the
  first match is replaced, once.\<close>

definition perl_subst :: "string \<Rightarrow> string \<Rightarrow> string \<Rightarrow> string \<Rightarrow> string" where
  "perl_subst s e block doc =
     (case match_block s e doc of
        None \<Rightarrow> doc
      | Some (pre, mid, post) \<Rightarrow> pre @ block @ post)"

datatype shell_error = Missing_file string | Cannot_read string

text \<open>
  \<^verbatim>\<open>update_file_block path start_marker end_marker block_file\<close>.  The script runs under
  \<^verbatim>\<open>set -e\<close>: a block file that cannot be read ends it.  A status of \<^verbatim>\<open>grep\<close> other
  than 0 leads to the branch that appends.
\<close>

definition update_file_block ::
  "(string \<Rightarrow> string \<Rightarrow> bool) \<Rightarrow> files \<Rightarrow> string \<Rightarrow> string \<Rightarrow> string \<Rightarrow> string
     \<Rightarrow> shell_error + files" where
  "update_file_block dashed fs pth start_marker end_marker block_file =
     (case fs pth of
        None \<Rightarrow> Inl (Missing_file pth)
      | Some doc \<Rightarrow>
          (case fs block_file of
             None \<Rightarrow> Inl (Cannot_read block_file)
           | Some block \<Rightarrow>
               (let tmp = (if grep_qF dashed start_marker doc
                           then perl_subst start_marker end_marker block doc
                           else doc @ [CHR 0x0A] @ block @ [CHR 0x0A])
                in Inr (fs(pth \<mapsto> tmp)))))"

subsection \<open>apply.ps1\<close>

text \<open>
  \<^verbatim>\<open>$content -match $pattern\<close>: the operator ignores letter case.
\<close>

definition ps_match :: "string \<Rightarrow> string \<Rightarrow> string \<Rightarrow> bool" where
  "ps_match s e doc =
     (match_block (map to_lower s) (map to_lower e) (map to_lower doc) \<noteq> None)"

text \<open>The split that a match gives; it is what makes the scan below terminate.\<close>

lemma find_sub_decomp:
  "find_sub pat doc = Some (pre, post) \<Longrightarrow> doc = pre @ pat @ post"
proof (induction doc arbitrary: pre)
  case Nil
  then show ?case by (auto split: if_splits)
next
  case (Cons c cs)
  show ?case
  proof (cases "prefix pat (c # cs)")
    case True
    then show ?thesis using Cons.prems by (auto simp: prefix_def)
  next
    case False
    then obtain b where "find_sub pat cs = Some (b, post)" and "pre = c # b"
      using Cons.prems by auto
    then show ?thesis using Cons.IH by simp
  qed
qed

lemma match_block_decomp:
  "match_block s e doc = Some (pre, mid, post) \<Longrightarrow> doc = pre @ s @ mid @ e @ post"
  by (auto simp: match_block_def split: option.splits dest!: find_sub_decomp)

text \<open>
  \<^verbatim>\<open>[regex]::Replace($content, $pattern, evaluator)\<close>: every match is replaced, scanning
  on from the end of the previous match; the comparison respects letter case.  After an
  empty match (both markers empty) the scan moves on by one character.
\<close>

function ps_replace :: "string \<Rightarrow> string \<Rightarrow> string \<Rightarrow> string \<Rightarrow> string" where
  "ps_replace s e block doc =
     (case match_block s e doc of
        None \<Rightarrow> doc
      | Some (pre, mid, post) \<Rightarrow>
          if s = [] \<and> e = [] then
            (case doc of [] \<Rightarrow> block | c # cs \<Rightarrow> block @ c # ps_replace s e block cs)
          else pre @ block @ ps_replace s e block post)"
  by pat_completeness auto
termination
proof (relation "measure (\<lambda>(s, e, block, doc). length doc)")
  show "wf (measure (\<lambda>(s, e, block, doc). length doc))" by simp
next
  fix s e block doc :: string and x2 x y xa ya c cs
  assume "doc = c # cs"
  then show "((s, e, block, cs), (s, e, block, doc)) \<in> measure (\<lambda>(s, e, block, doc). length doc)"
    by simp
next
  fix s e block doc :: string and x2 x y xa ya
  assume m: "match_block s e doc = Some x2" "(x, y) = x2" "(xa, ya) = y" and ne: "\<not> (s = [] \<and> e = [])"
  then have "doc = x @ s @ xa @ e @ ya"
    using match_block_decomp [of s e doc x xa ya] by simp
  with ne show "((s, e, block, ya), (s, e, block, doc)) \<in> measure (\<lambda>(s, e, block, doc). length doc)"
    by auto
qed

text \<open>
  \<^verbatim>\<open>Update-FileBlock -Path -StartMarker -EndMarker -BlockContent\<close>.  A missing file gives a
  warning and nothing is written.
\<close>

definition Update_FileBlock :: "files \<Rightarrow> string \<Rightarrow> string \<Rightarrow> string \<Rightarrow> string \<Rightarrow> files" where
  "Update_FileBlock fs pth StartMarker EndMarker BlockContent =
     (case fs pth of
        None \<Rightarrow> fs
      | Some content \<Rightarrow>
          (let content' = (if ps_match StartMarker EndMarker content
                           then ps_replace StartMarker EndMarker BlockContent content
                           else content @ [CHR 0x0D, CHR 0x0A] @ BlockContent @ [CHR 0x0D, CHR 0x0A])
           in fs(pth \<mapsto> content')))"

text \<open>A marker on one line: not empty, and without CR or LF.\<close>

definition single_line_marker :: "string \<Rightarrow> bool" where
  "single_line_marker s = (s \<noteq> [] \<and> CHR 0x0A \<notin> set s \<and> CHR 0x0D \<notin> set s)"

section \<open>Dashboard.tsx: presets\<close>

text \<open>A \<^verbatim>\<open>PresetStep\<close> is a \<^verbatim>\<open>UiStep\<close> without its id.\<close>

datatype PresetStep =
    PresetCopy bool string string string
  | PresetPatchBlock bool string string string string string "ReplacementPair list"
  | PresetSetJsonValue bool string string valueType string bool
  | PresetBase64Embed bool string string string string
  | PresetRunCommand bool string string

definition preset_type :: "PresetStep \<Rightarrow> string" where
  "preset_type p =
     (case p of
        PresetCopy _ _ _ _ \<Rightarrow> ''copy''
      | PresetPatchBlock _ _ _ _ _ _ _ \<Rightarrow> ''patchBlock''
      | PresetSetJsonValue _ _ _ _ _ _ \<Rightarrow> ''setJsonValue''
      | PresetBase64Embed _ _ _ _ _ \<Rightarrow> ''base64Embed''
      | PresetRunCommand _ _ _ \<Rightarrow> ''runCommand'')"

record PresetData =
  preset_appName :: string
  preset_version :: string
  preset_publisher :: string
  preset_description :: string
  preset_advancedMode :: bool
  preset_payloadDir :: "string option"
  preset_steps :: "PresetStep list"

datatype js_error = TypeError

text \<open>
  \<^verbatim>\<open>String(v)\<close>.  An array is joined with commas, \<^verbatim>\<open>null\<close> and \<^verbatim>\<open>undefined\<close> elements
  giving the empty string.  An object is converted through its \<^verbatim>\<open>toString\<close> property:
  the inherited method gives \<^verbatim>\<open>[object Object]\<close>, but an own property named
  \<^verbatim>\<open>toString\<close>, whose value in parsed JSON is never a function, hides it, and the
  conversion throws a TypeError (\<open>None\<close>).
\<close>

fun js_String :: "'n js_env \<Rightarrow> 'n jsv \<Rightarrow> string option" where
  "js_String js JUndefined = Some ''undefined''"
| "js_String js JNull = Some ''null''"
| "js_String js (JBool b) = Some (if b then ''true'' else ''false'')"
| "js_String js (JNum n) = Some (num_to_string js n)"
| "js_String js (JStr s) = Some s"
| "js_String js (JArr xs) =
     map_option (join '','')
       (those (map (\<lambda>x. case x of JUndefined \<Rightarrow> Some [] | JNull \<Rightarrow> Some []
                            | _ \<Rightarrow> js_String js x) xs))"
| "js_String js (JObj kvs) =
     (if ''toString'' \<in> set (map fst kvs) then None else Some ''[object Object]'')"

text \<open>\<^verbatim>\<open>Boolean(v)\<close>\<close>

definition truthy :: "'n js_env \<Rightarrow> 'n jsv \<Rightarrow> bool" where
  "truthy js v =
     (case v of
        JUndefined \<Rightarrow> False | JNull \<Rightarrow> False | JBool b \<Rightarrow> b
      | JNum n \<Rightarrow> num_truthy js n | JStr s \<Rightarrow> s \<noteq> [] | _ \<Rightarrow> True)"

text \<open>\<^verbatim>\<open>typeof v === 'string' ? v : d\<close>\<close>

definition string_or :: "'n jsv \<Rightarrow> string \<Rightarrow> string" where
  "string_or v d = (case v of JStr s \<Rightarrow> s | _ \<Rightarrow> d)"

text \<open>\<^verbatim>\<open>String(v ?? '')\<close>\<close>

definition String_or_empty :: "'n js_env \<Rightarrow> 'n jsv \<Rightarrow> string option" where
  "String_or_empty js v =
     (case v of JUndefined \<Rightarrow> Some [] | JNull \<Rightarrow> Some [] | _ \<Rightarrow> js_String js v)"

text \<open>\<^verbatim>\<open>typeof v === 'string' ? v : String(w ?? '')\<close>\<close>

definition string_or_String :: "'n js_env \<Rightarrow> 'n jsv \<Rightarrow> 'n jsv \<Rightarrow> string option" where
  "string_or_String js v w = (case v of JStr s \<Rightarrow> Some s | _ \<Rightarrow> String_or_empty js w)"

text \<open>\<^verbatim>\<open>'k' in raw\<close> for an object.\<close>

definition has_key :: "(string \<times> 'n jsv) list \<Rightarrow> string \<Rightarrow> bool" where
  "has_key kvs k = (k \<in> set (map fst kvs))"

text \<open>The list \<^verbatim>\<open>replacementList\<close> of a patchBlock entry: the array itself, or the
  entries of the object as objects with a \<^verbatim>\<open>key\<close> and a \<^verbatim>\<open>value\<close>.\<close>

definition replacementList :: "'n jsv \<Rightarrow> 'n jsv list" where
  "replacementList r =
     (case r of
        JArr xs \<Rightarrow> xs
      | JObj kvs \<Rightarrow> map (\<lambda>kv. JObj [(''key'', JStr (fst kv)), (''value'', snd kv)]) (Object_entries kvs)
      | _ \<Rightarrow> [])"

definition coerce_pair :: "'n js_env \<Rightarrow> 'n jsv \<Rightarrow> ReplacementPair option" where
  "coerce_pair js pair =
     (case String_or_empty js (get_prop pair ''key'') of
        None \<Rightarrow> None
      | Some k \<Rightarrow>
          (case String_or_empty js (get_prop pair ''value'') of
             None \<Rightarrow> None
           | Some v \<Rightarrow> Some (k, v)))"

text \<open>
  The callback of \<^verbatim>\<open>steps.map(...)\<close> in \<^verbatim>\<open>coercePresetSteps\<close>: \<open>Inr None\<close> is the
  result \<^verbatim>\<open>null\<close>, \<open>Inl TypeError\<close> the exception of a \<^verbatim>\<open>String(...)\<close> call.
\<close>

definition coerce_step :: "'n js_env \<Rightarrow> 'n jsv \<Rightarrow> js_error + PresetStep option" where
  "coerce_step js step =
     (case step of
        JObj kvs \<Rightarrow>
          (let raw = JObj kvs; on = (get_prop raw ''enabled'' \<noteq> JBool False) in
           case get_prop raw ''type'' of
             JStr ty \<Rightarrow>
               if ty = ''copy'' then
                 (case string_or_String js (get_prop raw ''payloadRel'') (get_prop raw ''src'') of
                    None \<Rightarrow> Inl TypeError
                  | Some rel \<Rightarrow>
                      Inr (Some (PresetCopy on (string_or (get_prop raw ''payloadSource'') [])
                                   rel (string_or (get_prop raw ''dest'') []))))
               else if ty = ''patchBlock'' then
                 (case those (map (coerce_pair js) (replacementList (get_prop raw ''replacements''))) of
                    None \<Rightarrow> Inl TypeError
                  | Some pairs \<Rightarrow>
                      (case string_or_String js (get_prop raw ''contentRel'') (get_prop raw ''contentFile'') of
                         None \<Rightarrow> Inl TypeError
                       | Some rel \<Rightarrow>
                           Inr (Some (PresetPatchBlock on (string_or (get_prop raw ''file'') [])
                                        (string_or (get_prop raw ''startMarker'') [])
                                        (string_or (get_prop raw ''endMarker'') [])
                                        (string_or (get_prop raw ''contentSource'') [])
                                        rel pairs))))
               else if ty = ''setJsonValue'' then
                 (let vt0 = (case get_prop raw ''valueType'' of
                               JStr t \<Rightarrow> if t = ''number'' then VNumber
                                         else if t = ''boolean'' then VBoolean
                                         else if t = ''json'' then VJson else VString
                             | _ \<Rightarrow> VString);
                      f = string_or (get_prop raw ''file'') [];
                      kp = string_or (get_prop raw ''keyPath'') []
                  in if has_key kvs ''valueRaw'' \<or> has_key kvs ''valueBool'' \<or> has_key kvs ''valueType''
                     then (case string_or_String js (get_prop raw ''valueRaw'') (get_prop raw ''valueRaw'') of
                             None \<Rightarrow> Inl TypeError
                           | Some vr \<Rightarrow>
                               Inr (Some (PresetSetJsonValue on f kp vt0 vr
                                            (truthy js (get_prop raw ''valueBool'')))))
                     else if has_key kvs ''value''
                     then (case valueToUi js (get_prop raw ''value'') of
                             (vt, vr, vb) \<Rightarrow> Inr (Some (PresetSetJsonValue on f kp vt vr vb)))
                     else Inr (Some (PresetSetJsonValue on f kp vt0 [] False)))
               else if ty = ''base64Embed'' then
                 (case string_or_String js (get_prop raw ''inputRel'') (get_prop raw ''inputFile'') of
                    None \<Rightarrow> Inl TypeError
                  | Some rel \<Rightarrow>
                      Inr (Some (PresetBase64Embed on (string_or (get_prop raw ''file'') [])
                                   (string_or (get_prop raw ''placeholder'') [])
                                   (string_or (get_prop raw ''inputSource'') []) rel)))
               else if ty = ''runCommand'' then
                 (case (case get_prop raw ''args'' of
                          JArr xs \<Rightarrow> map_option (join '', '') (those (map (js_String js) xs))
                        | JStr a \<Rightarrow> Some a
                        | _ \<Rightarrow> Some []) of
                    None \<Rightarrow> Inl TypeError
                  | Some a \<Rightarrow>
                      Inr (Some (PresetRunCommand on (string_or (get_prop raw ''command'') []) a)))
               else Inr None
           | _ \<Rightarrow> Inr None)
      | _ \<Rightarrow> Inr None)"

text \<open>Running the callback over the array: the first exception ends the call.\<close>

fun coerce_all :: "'n js_env \<Rightarrow> 'n jsv list \<Rightarrow> js_error + PresetStep list" where
  "coerce_all js [] = Inr []"
| "coerce_all js (x # xs) =
     (case coerce_step js x of
        Inl err \<Rightarrow> Inl err
      | Inr r \<Rightarrow>
          (case coerce_all js xs of
             Inl err \<Rightarrow> Inl err
           | Inr rs \<Rightarrow> Inr ((case r of None \<Rightarrow> [] | Some p \<Rightarrow> [p]) @ rs)))"

definition coercePresetSteps :: "'n js_env \<Rightarrow> 'n jsv \<Rightarrow> js_error + PresetStep list" where
  "coercePresetSteps js v = (case v of JArr xs \<Rightarrow> coerce_all js xs | _ \<Rightarrow> Inr [])"

definition normalizePresetData :: "'n js_env \<Rightarrow> 'n jsv \<Rightarrow> js_error + PresetData" where
  "normalizePresetData js raw =
     (case coercePresetSteps js (get_prop raw ''steps'') of
        Inl err \<Rightarrow> Inl err
      | Inr ss \<Rightarrow>
          Inr \<lparr>preset_appName = string_or (get_prop raw ''appName'') ''My App'',
               preset_version = string_or (get_prop raw ''version'') ''1.0.0'',
               preset_publisher = string_or (get_prop raw ''publisher'') ''Misfit'',
               preset_description = string_or (get_prop raw ''description'') ''Created with Misfit Studio'',
               preset_advancedMode = truthy js (get_prop raw ''advancedMode''),
               preset_payloadDir = (case get_prop raw ''payloadDir'' of JStr s \<Rightarrow> Some s | _ \<Rightarrow> None),
               preset_steps = ss\<rparr>)"

text \<open>Values in which no object has an own property named \<^verbatim>\<open>toString\<close>.\<close>

fun plain_json :: "'n jsv \<Rightarrow> bool" where
  "plain_json (JArr xs) = list_all plain_json xs"
| "plain_json (JObj kvs) =
     (''toString'' \<notin> set (map fst kvs) \<and> list_all (\<lambda>kv. plain_json (snd kv)) kvs)"
| "plain_json _ = True"

section \<open>Round trip through a manifest file\<close>

text \<open>
  \<^verbatim>\<open>handleExportManifest\<close> writes \<^verbatim>\<open>JSON.stringify(manifest, null, 2)\<close> to the file, and
  \<^verbatim>\<open>handleImportManifest\<close> passes \<^verbatim>\<open>JSON.parse\<close> of the text of the file to
  \<^verbatim>\<open>applyManifest\<close>.  \<open>json_copy\<close> is the value that is read back for a value written:
  strings, booleans and \<^verbatim>\<open>null\<close> as they are; a number from the text written for it,
  which is \<^verbatim>\<open>null\<close> when the number is not finite (\<^verbatim>\<open>JSON.parse\<close> does not fail on
  that text); \<^verbatim>\<open>undefined\<close> in an array as \<^verbatim>\<open>null\<close>; an object with its properties in
  the order in which they are enumerated, those that are \<^verbatim>\<open>undefined\<close> left out.
  The two lemmas are what makes the recursion terminate.
\<close>

lemma set_Object_entries: "set (Object_entries kvs) = set kvs"
  by (auto simp: Object_entries_def)











section \<open>Concrete inputs\<close>

text \<open>
  An instance of the built-ins on integers, for evaluating the handlers at concrete
  inputs: numbers are integers, a numeric text is read as an unsigned decimal integer
  (the instance is right on such numerals only, and meets no other numeral below),
  and \<^verbatim>\<open>JSON.parse\<close> is given on the texts \<^verbatim>\<open>null\<close>, \<^verbatim>\<open>true\<close>, \<^verbatim>\<open>false\<close> and unsigned
  integers.  On any other text this instance answers as for text that is not JSON;
  below it is applied to such text only where the text is blank or not JSON.
  \<^verbatim>\<open>JSON.stringify\<close> is given on \<^verbatim>\<open>null\<close>, booleans and integers, and is applied to
  nothing else below.
\<close>

definition show_int :: "int \<Rightarrow> string" where
  "show_int n = (if n < 0 then ''-'' @ show_nat (nat (- n)) else show_nat (nat n))"

definition is_uint_text :: "string \<Rightarrow> bool" where
  "is_uint_text s = (s \<noteq> [] \<and> list_all is_digit s \<and> (s = ''0'' \<or> hd s \<noteq> CHR ''0''))"

definition sample_json_parse :: "string \<Rightarrow> int jsv option" where
  "sample_json_parse s =
     (if s = ''null'' then Some JNull
      else if s = ''true'' then Some (JBool True)
      else if s = ''false'' then Some (JBool False)
      else if is_uint_text s then Some (JNum (int (nat_of_digits s)))
      else None)"

definition sample_json_stringify :: "int jsv \<Rightarrow> string" where
  "sample_json_stringify v =
     (case v of
        JNull \<Rightarrow> ''null''
      | JBool b \<Rightarrow> (if b then ''true'' else ''false'')
      | JNum n \<Rightarrow> show_int n
      | _ \<Rightarrow> [])"

definition sample_js :: "int js_env" where
  "sample_js =
     \<lparr>num_of = (\<lambda>t. int (nat_of_digits t)), num_to_string = show_int,
      num_truthy = (\<lambda>n. n \<noteq> 0), json_parse = sample_json_parse,
      json_stringify = sample_json_stringify\<rparr>"

definition sample_form :: "UiStep list \<Rightarrow> Dashboard" where
  "sample_form ss =
     \<lparr>st_projectName = ''MyNewInstaller'', st_appName = ''My App'', st_version = ''1.0.0'',
      st_publisher = ''Misfit'', st_description = ''Created with Misfit Studio'',
      st_advancedMode = False, st_payloadDir = ''payloads'', st_steps = ss\<rparr>"

definition sample_manifest :: "int jsv InstallManifest" where
  "sample_manifest =
     \<lparr>appName = ''Demo'', version = ''1.0.0'', publisher = ''Misfit'', description = ''demo'',
      logoPath = None, advancedMode = Some False, targets = [], payloadDir = ''payloads'',
      installSteps =
        [JObj [(''type'', JStr ''copy''), (''src'', JStr ''a''), (''dest'', JStr ''b'')],
         JObj [(''type'', JStr ''runCommand''), (''command'', JStr ''reg''),
               (''args'', JArr [JStr ''add''])]]\<rparr>"

definition target_absent :: BuildTargetInfo where
  "target_absent = \<lparr>path = ''dist/MyNewInstaller'', exists = False, hasMarker = False, isAbsolute = False\<rparr>"

definition target_unmarked :: BuildTargetInfo where
  "target_unmarked = \<lparr>path = ''C:/Users/me/Documents'', exists = True, hasMarker = False, isAbsolute = True\<rparr>"

definition sample_inspect :: "BuildTargetInfo \<Rightarrow> int BuildRequest \<Rightarrow> string + BuildTargetInfo" where
  "sample_inspect t req = Inr t"

definition sample_build :: "int BuildRequest \<Rightarrow> string + string" where
  "sample_build req = Inr (''dist/'' @ projectName req)"

definition always_yes :: "string \<Rightarrow> bool" where
  "always_yes title = True"

definition bad_number_step :: "bool \<Rightarrow> UiStep" where
  "bad_number_step on = SetJsonValueStep ''step-1'' on ''settings.json'' ''editor.fontSize'' VNumber ''12px'' False"

definition theme_copy_step :: UiStep where
  "theme_copy_step = CopyStep ''step-1'' True ''C:/work/theme'' ''theme'' ''%APPDATA%/theme''"

definition css_copy_a :: UiStep where
  "css_copy_a = CopyStep ''step-1'' True ''C:/themes/dark/style.css'' ''style.css'' ''%APPDATA%/app/dark.css''"

definition css_copy_b :: UiStep where
  "css_copy_b = CopyStep ''step-2'' True ''C:/themes/light/style.css'' '' style.css'' ''%APPDATA%/app/light.css''"

definition blank_copy_a :: UiStep where
  "blank_copy_a = CopyStep ''step-1'' True ''C:/a/ /'' [] ''out/a''"

definition blank_copy_b :: UiStep where
  "blank_copy_b = CopyStep ''step-2'' True ''C:/b/ /'' [] ''out/b''"

definition bad_json_step :: UiStep where
  "bad_json_step = SetJsonValueStep ''step-2'' True ''settings.json'' ''editor.rulers'' VJson ''[80,'' False"

definition blank_json_step :: UiStep where
  "blank_json_step = SetJsonValueStep ''step-1'' True [] [] VJson '' '' False"

definition passwd_manifest :: "int InstallStep InstallManifest" where
  "passwd_manifest =
     \<lparr>appName = ''Demo'', version = ''1.0.0'', publisher = ''Misfit'', description = ''demo'',
      logoPath = None, advancedMode = Some False, targets = [], payloadDir = ''payloads'',
      installSteps = [Copy (Some ''/etc/passwd'') (Some ''out/passwd''),
                      Base64Embed (Some ''out/app.css'') (Some ''__KEY__'') (Some ''../secrets/key.pem'')]\<rparr>"

definition sample_makeId :: "nat \<Rightarrow> string" where
  "sample_makeId n = ''step-'' @ show_nat (Suc n)"

definition marker_S :: string where "marker_S = ''/*S*/''"
definition marker_E :: string where "marker_E = ''/*E*/''"

definition two_block_files :: files where
  "two_block_files =
     [''workbench.css'' \<mapsto> ''a{}/*S*/1/*E*/b{}/*S*/2/*E*/c{}'',
      ''overlay.css'' \<mapsto> ''/*S*/N/*E*/'']"

definition fresh_files :: files where
  "fresh_files =
     [''workbench.css'' \<mapsto> ''body{}'',
      ''overlay.css'' \<mapsto> ''/*S*/x{}/*E*/'',
      ''plain.css'' \<mapsto> ''x{}'']"

text \<open>A \<^verbatim>\<open>grep\<close> that knows no option by the name of the marker and ends with status 2.\<close>

definition rejecting_grep :: "string \<Rightarrow> string \<Rightarrow> bool" where
  "rejecting_grep marker doc = False"

definition dashed_files :: files where
  "dashed_files =
     [''workbench.css'' \<mapsto> ''body{}'',
      ''overlay.css'' \<mapsto> ''--S--x{}--E--'']"

definition two_line_S :: string where "two_line_S = ''A'' @ [CHR 0x0A] @ ''B''"

definition two_line_files :: files where
  "two_line_files =
     [''notes.txt'' \<mapsto> ''xAx'',
      ''block.txt'' \<mapsto> ''A'' @ [CHR 0x0A] @ ''By/*E*/'']"

definition lower_case_files :: files where
  "lower_case_files = [''workbench.css'' \<mapsto> ''/*s*/old/*e*/'']"

definition hostile_preset :: "int jsv" where
  "hostile_preset =
     JObj [(''appName'', JStr ''Theme pack''),
           (''steps'', JArr [JObj [(''type'', JStr ''copy''),
                                   (''src'', JObj [(''toString'', JNull)]),
                                   (''dest'', JStr ''out'')]])]"



section \<open>Properties of the installer\<close>

lemma filter_runCommand_nonempty:
  "list_ex is_runCommand ss \<Longrightarrow> length (filter is_runCommand ss) > 0"
  by (induction ss) auto

text \<open>
  C7.  When the loaded manifest has at least one step of type \<^verbatim>\<open>runCommand\<close>, the first
  thing \<^verbatim>\<open>handleInstall\<close> does is to ask for consent to run commands; when the user
  declines, the only further effect is the log line "Installation cancelled by user.":
  \<^verbatim>\<open>run_install\<close> is not invoked and the status is not changed.
\<close>

theorem handleInstall_consent:
  assumes "list_ex is_runCommand (installSteps m)"
  shows "take 1 (handleInstall (Some m) proceed run_install) =
           [Confirm ''Run commands?'' (consent_message (filter is_runCommand (installSteps m)))]
       \<and> handleInstall (Some m) False run_install =
           [Confirm ''Run commands?'' (consent_message (filter is_runCommand (installSteps m))),
            AddLog ''Installation cancelled by user.'']
       \<and> \<not> invokes_run_install (handleInstall (Some m) False run_install)"
  using filter_runCommand_nonempty [OF assms]
  by (simp add: handleInstall_def Let_def invokes_run_install_def)

lemma sample_manifest_has_command: "list_ex is_runCommand (installSteps sample_manifest)"
  by (simp add: sample_manifest_def is_runCommand_def)

lemma sample_manifest_message:
  "consent_message (filter is_runCommand (installSteps sample_manifest)) =
     ''This installer will run system commands.'' @ [CHR 0x0A] @ ''reg''
     @ [CHR 0x0A, CHR 0x0A] @ ''Continue?''"
  by (simp add: sample_manifest_def is_runCommand_def consent_message_def commands_of_def
        trim_def is_ws_def join_def Let_def)

theorem handleInstall_consent_witness:
  "list_ex is_runCommand (installSteps sample_manifest)
   \<and> handleInstall (Some sample_manifest) False None =
       [Confirm ''Run commands?''
          (''This installer will run system commands.'' @ [CHR 0x0A] @ ''reg''
           @ [CHR 0x0A, CHR 0x0A] @ ''Continue?''),
        AddLog ''Installation cancelled by user.'']
   \<and> \<not> invokes_run_install (handleInstall (Some sample_manifest) False None)"
  using handleInstall_consent [OF sample_manifest_has_command, of True None]
    sample_manifest_has_command sample_manifest_message
  by (simp add: invokes_run_install_def)

section \<open>Properties of the build\<close>

lemma errors_push_error [simp]: "errors (push_error e acc) = errors acc @ [e]"
  by (simp add: push_error_def)

lemma errors_push_step [simp]: "errors (push_step s acc) = errors acc"
  by (simp add: push_step_def)

lemma errors_addPayload: "prefix (errors acc) (errors (addPayload r s acc))"
  by (simp add: addPayload_def Let_def)

lemma errors_build_step: "prefix (errors acc) (errors (build_step js acc s))"
  by (cases s)
     (simp_all add: build_step_def errors_addPayload Let_def
           split: valueType.splits option.splits)

lemma errors_foldl_prefix: "prefix (errors acc) (errors (foldl (build_step js) acc ss))"
proof (induction ss arbitrary: acc)
  case Nil
  then show ?case by simp
next
  case (Cons s ss)
  have "prefix (errors acc) (errors (build_step js acc s))" by (rule errors_build_step)
  also have "prefix \<dots> (errors (foldl (build_step js) (build_step js acc s) ss))" by (rule Cons.IH)
  finally show ?case by simp
qed

lemma errors_foldl_keep:
  "errors acc \<noteq> [] \<Longrightarrow> errors (foldl (build_step js) acc ss) \<noteq> []"
  using errors_foldl_prefix [of acc js ss] by auto

lemma rejected_step_rejects_build:
  assumes "s \<in> set ss" and "\<And>acc. errors (build_step js acc s) \<noteq> []"
  shows "errors (foldl (build_step js) acc ss) \<noteq> []"
  using assms(1)
proof (induction ss arbitrary: acc)
  case Nil
  then show ?case by simp
next
  case (Cons x xs)
  show ?case
  proof (cases "x = s")
    case True
    then show ?thesis using errors_foldl_keep [OF assms(2)] by simp
  next
    case False
    with Cons.prems have "s \<in> set xs" by simp
    then show ?thesis using Cons.IH by simp
  qed
qed

lemma handleBuild_rejected:
  assumes "errors (collect js (st_steps st)) \<noteq> []"
  shows "handleBuild js st inspect build answer =
           [SetBuilding True, SetLogs ''Summoning the forge...'',
            SetLogs (''Forge failed: Error: '' @ join '' '' (errors (collect js (st_steps st)))),
            SetBuilding False]"
  using assms by (simp add: handleBuild_def Let_def)

text \<open>
  C3 (amended).  For every \<^emph>\<open>enabled\<close> \<^verbatim>\<open>setJsonValue\<close> step of type number whose
  \<^verbatim>\<open>valueRaw\<close> converts to NaN, the validation memo pushes the error "JSON number value is
  invalid." for the step, so its error count is positive, and \<^verbatim>\<open>handleBuild\<close> throws
  after the loop: it logs the failure and invokes neither \<^verbatim>\<open>inspect_build_target\<close> nor
  \<^verbatim>\<open>build_project\<close>.
\<close>

theorem invalid_number_rejected:
  assumes "SetJsonValueStep i True f kp VNumber raw vb \<in> set (st_steps st)"
    and "Number js raw = None"
  shows "(i, Error, ''JSON number value is invalid.'') \<in> set (pushed_issues js (st_steps st))
       \<and> errorCount (validation js (st_steps st)) > 0
       \<and> handleBuild js st inspect build answer =
           [SetBuilding True, SetLogs ''Summoning the forge...'',
            SetLogs (''Forge failed: Error: '' @ join '' '' (errors (collect js (st_steps st)))),
            SetBuilding False]
       \<and> \<not> list_ex is_backend_call (handleBuild js st inspect build answer)"
proof -
  let ?s = "SetJsonValueStep i True f kp VNumber raw vb"
  have iss: "(Error, ''JSON number value is invalid.'') \<in> set (step_issues js ?s)"
    using assms(2) by (simp add: step_issues_def)
  then have p: "(i, Error, ''JSON number value is invalid.'') \<in> set (pushed_issues js (st_steps st))"
    using assms(1) unfolding pushed_issues_def by force
  then have "filter (\<lambda>p. fst (snd p) = Error) (pushed_issues js (st_steps st)) \<noteq> []"
    by (force simp: filter_empty_conv)
  then have c: "errorCount (validation js (st_steps st)) > 0"
    by (simp add: validation_def Let_def)
  have "\<And>acc. errors (build_step js acc ?s) \<noteq> []"
    using assms(2) by (simp add: build_step_def Let_def)
  then have e: "errors (collect js (st_steps st)) \<noteq> []"
    unfolding collect_def using assms(1) rejected_step_rejects_build by blast
  have h: "handleBuild js st inspect build answer =
           [SetBuilding True, SetLogs ''Summoning the forge...'',
            SetLogs (''Forge failed: Error: '' @ join '' '' (errors (collect js (st_steps st)))),
            SetBuilding False]"
    using e by (rule handleBuild_rejected)
  have "\<not> list_ex is_backend_call (handleBuild js st inspect build answer)"
    unfolding h by (simp add: is_backend_call_def)
  with p c h show ?thesis by blast
qed

lemma Number_12px: "Number js ''12px'' = None"
  by (simp add: Number_def trim_def is_ws_def str_numeric_literal_def non_decimal_integer_def
        unsigned_decimal_def is_digit_def exponent_opt_def Let_def)

lemma collect_bad_number: "errors (collect sample_js [bad_number_step True]) = [''A JSON decree number is invalid.'']"
  by (simp add: collect_def build_step_def bad_number_step_def Number_12px Let_def trim_def is_ws_def)

text \<open>The instance: one enabled step with the value \<^verbatim>\<open>12px\<close>.\<close>

theorem invalid_number_rejected_witness:
  "bad_number_step True \<in> set (st_steps (sample_form [bad_number_step True]))
   \<and> Number sample_js ''12px'' = None
   \<and> errorCount (validation sample_js [bad_number_step True]) > 0
   \<and> handleBuild sample_js (sample_form [bad_number_step True])
        (sample_inspect target_absent) sample_build always_yes =
        [SetBuilding True, SetLogs ''Summoning the forge...'',
         SetLogs ''Forge failed: Error: A JSON decree number is invalid.'',
         SetBuilding False]"
  using invalid_number_rejected [of "''step-1''" "''settings.json''" "''editor.fontSize''" "''12px''" False
          "sample_form [bad_number_step True]" sample_js "sample_inspect target_absent" sample_build always_yes]
    collect_bad_number
  by (simp add: Number_12px sample_form_def bad_number_step_def join_def)

text \<open>
  C3 as stated, for every step, fails on a disabled step: both loops skip it
  (\<^verbatim>\<open>if (!step.enabled) continue\<close>), validation counts no error and the build goes on
  to the backend.
\<close>

theorem disabled_invalid_number_counterexample:
  "Number sample_js (valueRaw (bad_number_step False)) = None
   \<and> errorCount (validation sample_js [bad_number_step False]) = 0
   \<and> list_ex is_backend_call
        (handleBuild sample_js (sample_form [bad_number_step False])
           (sample_inspect target_absent) sample_build always_yes)"
  by (simp add: Number_12px bad_number_step_def validation_def pushed_issues_def step_issues_def
        handleBuild_def collect_def build_step_def sample_form_def Let_def is_backend_call_def)

lemma dialog_titles_append [simp]: "dialog_titles (xs @ ys) = dialog_titles xs @ dialog_titles ys"
  by (simp add: dialog_titles_def)

lemma build_calls_append [simp]: "build_calls (xs @ ys) = build_calls xs @ build_calls ys"
  by (simp add: build_calls_def)

lemma policy_dialogs:
  "map fst (fst (overwrite_policy target answer)) =
           (if \<not> exists target then []
            else if isAbsolute target \<and> \<not> hasMarker target then
              (if answer ''No marker found'' then [''No marker found'', ''Delete existing folder?'']
               else [''No marker found''])
            else [''Overwrite existing build?''])"
  by (simp add: overwrite_policy_def Let_def)

lemma policy_force:
  "snd (overwrite_policy target answer) =
           (if \<not> exists target then Some False
            else if isAbsolute target \<and> \<not> hasMarker target then
              (if answer ''No marker found'' \<and> answer ''Delete existing folder?'' then Some True else None)
            else (if answer ''Overwrite existing build?'' then Some True else None))"
  by (simp add: overwrite_policy_def Let_def)

lemma dialog_titles_simps [simp]:
  "dialog_titles [] = []"
  "dialog_titles (e # es) = (case e of ConfirmDialog t _ \<Rightarrow> [t] | _ \<Rightarrow> []) @ dialog_titles es"
  by (simp_all add: dialog_titles_def)

lemma build_calls_simps [simp]:
  "build_calls [] = []"
  "build_calls (e # es) =
     (case e of Invoke_build_project r \<Rightarrow> [forceOverwrite r] | _ \<Rightarrow> []) @ build_calls es"
  by (simp_all add: build_calls_def)

lemma show_dialogs_titles [simp]: "dialog_titles (show_dialogs ds) = map fst ds"
  by (induction ds) (simp_all add: show_dialogs_def)

lemma show_dialogs_calls [simp]: "build_calls (show_dialogs ds) = []"
  by (induction ds) (simp_all add: show_dialogs_def)

lemma show_dialogs_no_call: "e \<in> set (show_dialogs ds) \<Longrightarrow> \<not> is_build_call e"
  by (auto simp: show_dialogs_def is_build_call_def)

text \<open>The rest of the handler once the dialogs are over.\<close>

lemma handleBuild_inspected:
  assumes "errors (collect js (st_steps st)) = []"
    and "inspect (build_request st (collect js (st_steps st)) None) = Inr target"
  shows "handleBuild js st inspect build answer =
           [SetBuilding True, SetLogs ''Summoning the forge...'',
            Invoke_inspect_build_target (build_request st (collect js (st_steps st)) None)]
           @ show_dialogs (fst (overwrite_policy target answer))
           @ (case snd (overwrite_policy target answer) of
                None \<Rightarrow> [SetBuilding False, SetBuilding False]
              | Some force \<Rightarrow>
                  [Invoke_build_project (build_request st (collect js (st_steps st)) (Some force)),
                   (case build (build_request st (collect js (st_steps st)) (Some force)) of
                      Inl e \<Rightarrow> SetLogs (''Forge failed: '' @ e)
                    | Inr p \<Rightarrow> SetLogs (''Decree forged. Output at: '' @ p)),
                   SetBuilding False])"
proof -
  obtain ds f where p: "overwrite_policy target answer = (ds, f)"
    by (cases "overwrite_policy target answer")
  show ?thesis
    using assms p by (cases f) (simp_all add: handleBuild_def Let_def split: sum.splits)
qed

text \<open>
  C4.  Once the steps are accepted and \<^verbatim>\<open>inspect_build_target\<close> has answered: when the
  output does not exist no dialog is shown and \<^verbatim>\<open>build_project\<close> is invoked with
  \<^verbatim>\<open>forceOverwrite = false\<close>; when it exists and has the marker or is not absolute,
  exactly the dialog "Overwrite existing build?" is shown; when it exists, is absolute and
  has no marker, "No marker found" is shown, then (if accepted) "Delete existing folder?".
  \<^verbatim>\<open>build_project\<close> is invoked, once and with \<^verbatim>\<open>forceOverwrite = true\<close>, exactly when
  every dialog shown was accepted, and no dialog comes after that call.
\<close>

theorem handleBuild_overwrite_policy:
  assumes "errors (collect js (st_steps st)) = []"
    and "inspect (build_request st (collect js (st_steps st)) None) = Inr target"
  shows "dialog_titles (handleBuild js st inspect build answer) =
           (if \<not> exists target then []
            else if isAbsolute target \<and> \<not> hasMarker target then
              (if answer ''No marker found'' then [''No marker found'', ''Delete existing folder?'']
               else [''No marker found''])
            else [''Overwrite existing build?''])
       \<and> build_calls (handleBuild js st inspect build answer) =
           (if \<not> exists target then [Some False]
            else if isAbsolute target \<and> \<not> hasMarker target then
              (if answer ''No marker found'' \<and> answer ''Delete existing folder?'' then [Some True] else [])
            else (if answer ''Overwrite existing build?'' then [Some True] else []))
       \<and> dialog_titles (dropWhile (\<lambda>e. \<not> is_build_call e) (handleBuild js st inspect build answer)) = []"
proof -
  let ?T = "handleBuild js st inspect build answer"
  define rest where "rest =
     (case snd (overwrite_policy target answer) of
                None \<Rightarrow> [SetBuilding False, SetBuilding False]
              | Some force \<Rightarrow>
                  [Invoke_build_project (build_request st (collect js (st_steps st)) (Some force)),
                   (case build (build_request st (collect js (st_steps st)) (Some force)) of
                      Inl e \<Rightarrow> SetLogs (''Forge failed: '' @ e)
                    | Inr p \<Rightarrow> SetLogs (''Decree forged. Output at: '' @ p)),
                   SetBuilding False])"
  define pre where "pre =
     [SetBuilding True, SetLogs ''Summoning the forge...'',
      Invoke_inspect_build_target (build_request st (collect js (st_steps st)) None)]
     @ show_dialogs (fst (overwrite_policy target answer))"
  have T: "?T = pre @ rest"
    using handleBuild_inspected [of js st inspect target build answer] assms
    by (simp add: pre_def rest_def)
  have rest_d: "dialog_titles rest = []"
    by (simp add: rest_def split: option.splits sum.splits)
  have rest_b: "build_calls rest =
      (case snd (overwrite_policy target answer) of None \<Rightarrow> [] | Some force \<Rightarrow> [Some force])"
    by (simp add: rest_def build_request_def split: option.splits sum.splits)
  have pre_d: "dialog_titles pre = map fst (fst (overwrite_policy target answer))"
    by (simp add: pre_def)
  have pre_b: "build_calls pre = []"
    by (simp add: pre_def)
  have d: "dialog_titles ?T = map fst (fst (overwrite_policy target answer))"
    unfolding T by (simp add: rest_d pre_d)
  have b: "build_calls ?T =
      (case snd (overwrite_policy target answer) of None \<Rightarrow> [] | Some force \<Rightarrow> [Some force])"
    unfolding T by (simp add: rest_b pre_b)
  have "\<And>e. e \<in> set pre \<Longrightarrow> \<not> is_build_call e"
    using show_dialogs_no_call by (auto simp: pre_def is_build_call_def)
  then have "dropWhile (\<lambda>e. \<not> is_build_call e) ?T = dropWhile (\<lambda>e. \<not> is_build_call e) rest"
    unfolding T by (rule dropWhile_append2)
  also have "dialog_titles \<dots> = []"
    by (simp add: rest_def is_build_call_def split: option.splits sum.splits)
  finally have o: "dialog_titles (dropWhile (\<lambda>e. \<not> is_build_call e) ?T) = []" .
  show ?thesis
    unfolding d b policy_dialogs policy_force using o by simp
qed

lemma collect_theme: "errors (collect sample_js [theme_copy_step]) = []"
  by (simp add: collect_def build_step_def theme_copy_step_def Let_def trim_def is_ws_def
        addPayload_def or_else_def push_step_def)

text \<open>The instance: an existing absolute folder without marker, both dialogs accepted.\<close>

theorem handleBuild_overwrite_policy_witness:
  "errors (collect sample_js (st_steps (sample_form [theme_copy_step]))) = []
   \<and> sample_inspect target_unmarked
        (build_request (sample_form [theme_copy_step]) (collect sample_js [theme_copy_step]) None)
      = Inr target_unmarked
   \<and> dialog_titles (handleBuild sample_js (sample_form [theme_copy_step])
        (sample_inspect target_unmarked) sample_build always_yes)
      = [''No marker found'', ''Delete existing folder?'']
   \<and> build_calls (handleBuild sample_js (sample_form [theme_copy_step])
        (sample_inspect target_unmarked) sample_build always_yes)
      = [Some True]"
  using handleBuild_overwrite_policy [of sample_js "sample_form [theme_copy_step]"
          "sample_inspect target_unmarked" target_unmarked sample_build always_yes]
    collect_theme
  by (simp add: sample_form_def sample_inspect_def target_unmarked_def always_yes_def)

lemma payloadMap_push [simp]:
  "payloadMap (push_error e acc) = payloadMap acc"
  "payloadMap (push_step s acc) = payloadMap acc"
  by (simp_all add: push_error_def push_step_def)

lemma addPayload_staged:
  assumes "trim rel \<noteq> []"
  shows "payloadMap (addPayload rel src acc) =
           (if already_claimed acc (trim rel) src then payloadMap acc
            else AList.update (trim rel) src (payloadMap acc))"
    and "errors (addPayload rel src acc) =
           errors acc @ (if already_claimed acc (trim rel) src
                         then [''A payload path is already claimed: '' @ trim rel] else [])"
  using assms by (simp_all add: addPayload_def already_claimed_def Let_def)

lemma addPayload_blank:
  assumes "trim rel = []"
  shows "payloadMap (addPayload rel src acc) = payloadMap acc"
  using assms by (simp add: addPayload_def Let_def)

lemma build_step_staged:
  assumes "staged s = Some (c, src)"
  shows "payloadMap (build_step js acc s) =
           (if already_claimed acc c src then payloadMap acc
            else AList.update c src (payloadMap acc))"
    and "errors (build_step js acc s) =
           errors acc @ (if already_claimed acc c src
                         then [''A payload path is already claimed: '' @ c] else [])"
  using assms
  by (cases s;
      simp add: staged_def reaches_addPayload_def staged_rel_def staged_source_def
        build_step_def Let_def addPayload_staged split: if_splits)+

lemma build_step_unstaged:
  assumes "staged s = None"
  shows "payloadMap (build_step js acc s) = payloadMap acc"
  using assms
  by (cases s)
     (auto simp: staged_def reaches_addPayload_def staged_rel_def staged_source_def
        build_step_def Let_def addPayload_blank split: if_splits valueType.splits option.splits)

lemma entry_stable_step:
  assumes "map_of (payloadMap acc) c = Some v"
  shows "map_of (payloadMap (build_step js acc s)) c = Some v"
proof (cases "staged s")
  case None
  then show ?thesis using assms by (simp add: build_step_unstaged)
next
  case (Some p)
  obtain c' src' where p: "p = (c', src')" by (cases p)
  show ?thesis
    using assms build_step_staged(1) [of s c' src' js acc] Some p
    by (auto simp: already_claimed_def update_conv')
qed

lemma entry_stable_foldl:
  "map_of (payloadMap acc) c = Some v \<Longrightarrow>
   map_of (payloadMap (foldl (build_step js) acc ss)) c = Some v"
  by (induction ss arbitrary: acc) (simp_all add: entry_stable_step)

lemma errors_foldl_subset:
  "e \<in> set (errors acc) \<Longrightarrow> e \<in> set (errors (foldl (build_step js) acc ss))"
  using errors_foldl_prefix [of acc js ss] by (auto simp: prefix_def)

lemma split_two_positions:
  assumes "i < j" and "j < length ss"
  shows "ss = take i ss @ ss ! i # take (j - Suc i) (drop (Suc i) ss) @ ss ! j # drop (Suc j) ss"
proof -
  have i: "i < length ss" using assms by simp
  have "ss = take i ss @ ss ! i # drop (Suc i) ss"
    using i by (simp add: id_take_nth_drop)
  moreover have "j - Suc i < length (drop (Suc i) ss)" using assms by simp
  then have "drop (Suc i) ss =
      take (j - Suc i) (drop (Suc i) ss) @ drop (Suc i) ss ! (j - Suc i) # drop (Suc (j - Suc i)) (drop (Suc i) ss)"
    by (rule id_take_nth_drop)
  moreover have "drop (Suc i) ss ! (j - Suc i) = ss ! j" using assms by simp
  moreover have "drop (Suc (j - Suc i)) (drop (Suc i) ss) = drop (Suc j) ss" using assms by simp
  ultimately show ?thesis by metis
qed

text \<open>
  C2 (amended).  Take two steps of a build, at positions \<open>i < j\<close>, that are enabled, of
  kind copy, patchBlock or base64Embed, pass the checks of their required fields, and
  stage the same non-empty trimmed payload-relative path \<open>c\<close> from different (trimmed)
  sources.  Then \<^verbatim>\<open>handleBuild\<close> records "A payload path is already claimed: c", throws
  after the loop and invokes no backend command; and the entry of \<^verbatim>\<open>payloadMap\<close> for \<open>c\<close>
  is still the one it held after the earlier step.
\<close>

theorem payload_collision_rejected:
  assumes "i < j" and "j < length (st_steps st)"
    and "staged (st_steps st ! i) = Some (c, s1)"
    and "staged (st_steps st ! j) = Some (c, s2)"
    and "s1 \<noteq> s2"
  shows "(''A payload path is already claimed: '' @ c) \<in> set (errors (collect js (st_steps st)))
       \<and> handleBuild js st inspect build answer =
           [SetBuilding True, SetLogs ''Summoning the forge...'',
            SetLogs (''Forge failed: Error: '' @ join '' '' (errors (collect js (st_steps st)))),
            SetBuilding False]
       \<and> \<not> list_ex is_backend_call (handleBuild js st inspect build answer)
       \<and> (\<exists>v. map_of (payloadMap (collect js (take (Suc i) (st_steps st)))) c = Some v
              \<and> map_of (payloadMap (collect js (st_steps st))) c = Some v)"
proof -
  let ?ss = "st_steps st"
  let ?f = "build_step js"
  let ?E = "''A payload path is already claimed: '' @ c"
  define xs where "xs = take i ?ss"
  define ys where "ys = take (j - Suc i) (drop (Suc i) ?ss)"
  define zs where "zs = drop (Suc j) ?ss"
  define a where "a = ?ss ! i"
  define b where "b = ?ss ! j"
  have ss: "?ss = xs @ a # ys @ b # zs"
    unfolding xs_def ys_def zs_def a_def b_def by (rule split_two_positions [OF assms(1,2)])
  define acc1 where "acc1 = foldl ?f \<lparr>payloadMap = [], built = [], errors = []\<rparr> xs"
  define acc2 where "acc2 = ?f acc1 a"
  define acc3 where "acc3 = foldl ?f acc2 ys"
  define acc4 where "acc4 = ?f acc3 b"
  have all: "collect js ?ss = foldl ?f acc4 zs"
    unfolding collect_def acc4_def acc3_def acc2_def acc1_def by (subst ss) simp
  have "take (Suc i) ?ss = xs @ [a]"
    unfolding xs_def a_def using assms(1,2) by (simp add: take_Suc_conv_app_nth)
  then have upto: "collect js (take (Suc i) ?ss) = acc2"
    unfolding collect_def acc2_def acc1_def by simp
  have sa: "staged a = Some (c, s1)" and sb: "staged b = Some (c, s2)"
    using assms(3,4) by (simp_all add: a_def b_def)
  have pm2: "payloadMap acc2 =
               (if already_claimed acc1 c s1 then payloadMap acc1
                else AList.update c s1 (payloadMap acc1))"
    unfolding acc2_def by (rule build_step_staged(1) [OF sa])
  have er2: "errors acc2 = errors acc1 @ (if already_claimed acc1 c s1 then [?E] else [])"
    unfolding acc2_def by (rule build_step_staged(2) [OF sa])
  have pm4: "errors acc4 = errors acc3 @ (if already_claimed acc3 c s2 then [?E] else [])"
    unfolding acc4_def by (rule build_step_staged(2) [OF sb])
  obtain v where v: "map_of (payloadMap acc2) c = Some v"
    and v': "\<not> already_claimed acc1 c s1 \<Longrightarrow> v = s1"
    unfolding pm2 by (cases "already_claimed acc1 c s1") (auto simp: already_claimed_def update_conv')
  have v3: "map_of (payloadMap acc3) c = Some v"
    unfolding acc3_def using v by (rule entry_stable_foldl)
  have v4: "map_of (payloadMap acc4) c = Some v"
    unfolding acc4_def using v3 by (rule entry_stable_step)
  have v5: "map_of (payloadMap (collect js ?ss)) c = Some v"
    unfolding all using v4 by (rule entry_stable_foldl)
  have "?E \<in> set (errors acc4)"
  proof (cases "already_claimed acc1 c s1")
    case True
    then have "?E \<in> set (errors acc2)" by (simp add: er2)
    then have "?E \<in> set (errors acc3)" unfolding acc3_def by (rule errors_foldl_subset)
    then show ?thesis by (simp add: pm4)
  next
    case False
    then have "v = s1" by (rule v')
    then have "already_claimed acc3 c s2" using v3 assms(5) by (simp add: already_claimed_def)
    then show ?thesis by (simp add: pm4)
  qed
  then have E: "?E \<in> set (errors (collect js ?ss))"
    unfolding all by (rule errors_foldl_subset)
  then have ne: "errors (collect js ?ss) \<noteq> []" by auto
  have h: "handleBuild js st inspect build answer =
           [SetBuilding True, SetLogs ''Summoning the forge...'',
            SetLogs (''Forge failed: Error: '' @ join '' '' (errors (collect js ?ss))),
            SetBuilding False]"
    using ne by (rule handleBuild_rejected)
  have nb: "\<not> list_ex is_backend_call (handleBuild js st inspect build answer)"
    unfolding h by (simp add: is_backend_call_def)
  from E h nb v v5 upto show ?thesis by auto
qed

lemma staged_css:
  "staged css_copy_a = Some (''style.css'', ''C:/themes/dark/style.css'')"
  "staged css_copy_b = Some (''style.css'', ''C:/themes/light/style.css'')"
  by (simp_all add: staged_def reaches_addPayload_def staged_rel_def staged_source_def
        css_copy_a_def css_copy_b_def trim_def is_ws_def or_else_def)

lemma collect_css:
  "errors (collect sample_js [css_copy_a, css_copy_b]) = [''A payload path is already claimed: style.css'']"
  "payloadMap (collect sample_js [css_copy_a, css_copy_b]) = [(''style.css'', ''C:/themes/dark/style.css'')]"
  by (simp_all add: collect_def build_step_def css_copy_a_def css_copy_b_def Let_def trim_def is_ws_def
        addPayload_def or_else_def push_step_def)

text \<open>The instance: two style sheets staged as \<^verbatim>\<open>style.css\<close>.\<close>

theorem payload_collision_rejected_witness:
  "(0::nat) < 1 \<and> 1 < length (st_steps (sample_form [css_copy_a, css_copy_b]))
   \<and> staged (st_steps (sample_form [css_copy_a, css_copy_b]) ! 0) = Some (''style.css'', ''C:/themes/dark/style.css'')
   \<and> staged (st_steps (sample_form [css_copy_a, css_copy_b]) ! 1) = Some (''style.css'', ''C:/themes/light/style.css'')
   \<and> ''C:/themes/dark/style.css'' \<noteq> ''C:/themes/light/style.css''
   \<and> handleBuild sample_js (sample_form [css_copy_a, css_copy_b])
        (sample_inspect target_absent) sample_build always_yes =
        [SetBuilding True, SetLogs ''Summoning the forge...'',
         SetLogs ''Forge failed: Error: A payload path is already claimed: style.css'',
         SetBuilding False]
   \<and> map_of (payloadMap (collect sample_js [css_copy_a, css_copy_b])) ''style.css''
        = Some ''C:/themes/dark/style.css''"
  using payload_collision_rejected [of 0 1 "sample_form [css_copy_a, css_copy_b]"
          "''style.css''" "''C:/themes/dark/style.css''" "''C:/themes/light/style.css''"
          sample_js "sample_inspect target_absent" sample_build always_yes]
    staged_css collect_css
  by (simp add: sample_form_def join_def)

text \<open>
  C2 as stated fails when the staged path is blank: two copy steps whose sources end in a
  folder named by a single space stage the path \<^verbatim>\<open>" "\<close>, which trims to the empty
  path for both; the sources differ, and the errors recorded are "A payload path cannot
  be empty.", not "already claimed".
\<close>

theorem blank_path_collision_counterexample:
  "trim (staged_rel blank_copy_a) = trim (staged_rel blank_copy_b)
   \<and> staged_source blank_copy_a \<noteq> staged_source blank_copy_b
   \<and> reaches_addPayload blank_copy_a \<and> reaches_addPayload blank_copy_b
   \<and> errors (collect sample_js [blank_copy_a, blank_copy_b]) =
        [''A payload path cannot be empty.'', ''A payload path cannot be empty.'']"
  by (simp add: staged_rel_def staged_source_def reaches_addPayload_def blank_copy_a_def
        blank_copy_b_def collect_def build_step_def Let_def trim_def is_ws_def addPayload_def
        or_else_def toBaseName_def strip_trailing_seps_def is_sep_def push_step_def push_error_def)

section \<open>Properties of the export\<close>

lemma Number_NaN_not_blank: "Number js raw = None \<Longrightarrow> trim raw \<noteq> []"
  by (auto simp: Number_def Let_def split: if_splits)

text \<open>Export skips a step that is disabled, and a setJsonValue step whose file, key path
  and raw value are all blank, whatever the type of its value.\<close>

lemma export_skips_step:
  "\<not> enabled step \<Longrightarrow> export_step js step = []"
  "trim f = [] \<Longrightarrow> trim kp = [] \<Longrightarrow> trim raw = [] \<Longrightarrow>
     export_step js (SetJsonValueStep i en f kp vt raw vb) = []"
  by (simp_all add: export_step_def)

lemma export_step_in_manifest:
  "s \<in> set (st_steps st) \<Longrightarrow> x \<in> set (export_step js s) \<Longrightarrow>
   x \<in> set (installSteps (buildManifestForExport js st))"
  by (auto simp: buildManifestForExport_def manifest_of_def)

text \<open>
  C9 (amended).  Export has no error path for step values.  For an enabled
  \<^verbatim>\<open>setJsonValue\<close> step whose value is of type number and converts to NaN, or of type
  json and is not parseable \<^emph>\<open>and whose file, key path and value are not all blank\<close>,
  \<^verbatim>\<open>buildManifestForExport\<close> emits the step with the raw string as its value, and
  \<^verbatim>\<open>handleExportManifest\<close> writes the manifest and logs success, although the same steps
  make \<^verbatim>\<open>handleBuild\<close> collect an error (and so reject the build).
\<close>

theorem export_passes_invalid_values:
  assumes "SetJsonValueStep i True f kp vt raw vb \<in> set (st_steps st)"
    and "(vt = VNumber \<and> Number js raw = None)
         \<or> (vt = VJson \<and> parse_or_null js raw = None
             \<and> (trim f \<noteq> [] \<or> trim kp \<noteq> [] \<or> trim raw \<noteq> []))"
    and "filePath \<noteq> []"
  shows "export_step js (SetJsonValueStep i True f kp vt raw vb) =
           [SetJsonValue (Some (trim f)) (Some (trim kp)) (JStr raw)]
       \<and> SetJsonValue (Some (trim f)) (Some (trim kp)) (JStr raw)
           \<in> set (installSteps (buildManifestForExport js st))
       \<and> handleExportManifest js st (Some filePath) None =
           [SaveDialog ''install.manifest.json'',
            Invoke_write_text_file filePath (buildManifestForExport js st),
            ExportLog (''Manifest exported to '' @ filePath)]
       \<and> errors (collect js (st_steps st)) \<noteq> []"
proof -
  let ?s = "SetJsonValueStep i True f kp vt raw vb"
  have ex: "export_step js ?s = [SetJsonValue (Some (trim f)) (Some (trim kp)) (JStr raw)]"
    using assms(2) Number_NaN_not_blank [of js raw]
    by (auto simp: export_step_def Let_def)
  then have mem: "SetJsonValue (Some (trim f)) (Some (trim kp)) (JStr raw)
           \<in> set (installSteps (buildManifestForExport js st))"
    using export_step_in_manifest [OF assms(1), of _ js] by simp
  have h: "handleExportManifest js st (Some filePath) None =
           [SaveDialog ''install.manifest.json'',
            Invoke_write_text_file filePath (buildManifestForExport js st),
            ExportLog (''Manifest exported to '' @ filePath)]"
    using assms(3) by (simp add: handleExportManifest_def)
  have "\<And>acc. errors (build_step js acc ?s) \<noteq> []"
    using assms(2) by (auto simp: build_step_def Let_def)
  then have "errors (collect js (st_steps st)) \<noteq> []"
    unfolding collect_def using assms(1) rejected_step_rejects_build by blast
  with ex mem h show ?thesis by blast
qed

lemma parse_bad_json: "parse_or_null sample_js ''[80,'' = None"
  by (simp add: parse_or_null_def sample_js_def sample_json_parse_def is_uint_text_def is_digit_def)

lemma parse_blank_json: "parse_or_null sample_js '' '' = None"
  by (simp add: parse_or_null_def sample_js_def sample_json_parse_def is_uint_text_def is_digit_def)

text \<open>The instance: a number step with value \<^verbatim>\<open>12px\<close> and a json step with value
  \<^verbatim>\<open>[80,\<close>.\<close>

theorem export_passes_invalid_values_witness:
  "bad_json_step \<in> set (st_steps (sample_form [bad_number_step True, bad_json_step]))
   \<and> parse_or_null sample_js ''[80,'' = None
   \<and> installSteps (buildManifestForExport sample_js (sample_form [bad_number_step True, bad_json_step])) =
       [SetJsonValue (Some ''settings.json'') (Some ''editor.fontSize'') (JStr ''12px''),
        SetJsonValue (Some ''settings.json'') (Some ''editor.rulers'') (JStr ''[80,'')]
   \<and> errors (collect sample_js (st_steps (sample_form [bad_number_step True, bad_json_step]))) \<noteq> []"
  using export_passes_invalid_values [of "''step-2''" "''settings.json''" "''editor.rulers''" VJson
          "''[80,''" False "sample_form [bad_number_step True, bad_json_step]" sample_js "''out.json''"]
    parse_bad_json Number_12px [of sample_js]
  by (simp add: sample_form_def bad_json_step_def bad_number_step_def buildManifestForExport_def
        manifest_of_def export_step_def trim_def is_ws_def Let_def)

text \<open>
  C9 as stated fails on a json step that is blank but for white space in its value: the
  text \<^verbatim>\<open>" "\<close> is not parseable, \<^verbatim>\<open>handleBuild\<close> rejects the step, and export skips it
  (\<^verbatim>\<open>if (!step.file.trim() && !step.keyPath.trim() && !step.valueRaw.trim()) continue\<close>)
  instead of exporting the raw string.
\<close>

theorem blank_json_step_counterexample:
  "enabled blank_json_step \<and> valueType blank_json_step = VJson
   \<and> parse_or_null sample_js (valueRaw blank_json_step) = None
   \<and> errors (collect sample_js [blank_json_step]) = [''A JSON decree is missing the target file.'']
   \<and> installSteps (buildManifestForExport sample_js (sample_form [blank_json_step])) = []"
  using parse_blank_json
  by (simp add: blank_json_step_def collect_def build_step_def sample_form_def buildManifestForExport_def
        manifest_of_def export_step_def trim_def is_ws_def Let_def)

section \<open>Properties of the payload paths\<close>

lemma segs_sep_append:
  "is_sep c \<Longrightarrow> segs cur (xs @ c # ys) = segs cur xs @ segs [] ys"
  by (induction xs arbitrary: cur) auto

lemma segs_all_seps:
  "list_all is_sep xs \<Longrightarrow> segs cur xs = (if cur = [] then [] else [rev cur])"
  by (induction xs arbitrary: cur) auto

lemma segs_trailing_seps:
  "list_all is_sep ys \<Longrightarrow> segs cur (xs @ ys) = segs cur xs"
proof (induction xs arbitrary: cur)
  case Nil
  then show ?case by (simp add: segs_all_seps)
next
  case (Cons x xs)
  then show ?case by (auto simp: segs_all_seps)
qed

lemma strip_trailing_decomp:
  "\<exists>ys. s = strip_trailing_seps s @ ys \<and> list_all is_sep ys"
proof -
  have "rev s = takeWhile is_sep (rev s) @ dropWhile is_sep (rev s)" by simp
  then have "s = rev (dropWhile is_sep (rev s)) @ rev (takeWhile is_sep (rev s))"
    by (metis rev_append rev_rev_ident)
  moreover have "list_all is_sep (rev (takeWhile is_sep (rev s)))"
    by (simp add: list_all_iff) (meson set_takeWhileD)
  ultimately show ?thesis unfolding strip_trailing_seps_def by blast
qed

lemma segments_strip_trailing: "segments (strip_trailing_seps s) = segments s"
proof -
  obtain ys where "s = strip_trailing_seps s @ ys" and "list_all is_sep ys"
    using strip_trailing_decomp by blast
  then show ?thesis unfolding segments_def by (metis segs_trailing_seps)
qed

lemma segments_strip_leading: "segments (strip_leading_seps s) = segments s"
  unfolding segments_def strip_leading_seps_def by (induction s) auto

lemma segments_join:
  "segments (joinPathFragments base rel) = segments base @ segments rel"
proof -
  let ?b = "strip_trailing_seps base" and ?r = "strip_leading_seps rel"
  have b: "segments ?b = segments base" by (rule segments_strip_trailing)
  have r: "segments ?r = segments rel" by (rule segments_strip_leading)
  have e: "segments [] = []" by (simp add: segments_def)
  have j: "\<And>c. is_sep c \<Longrightarrow> segments (?b @ c # ?r) = segments ?b @ segments ?r"
    unfolding segments_def by (rule segs_sep_append)
  show ?thesis
  proof (cases "?b = []")
    case True
    then show ?thesis using b r e by (simp add: joinPathFragments_def Let_def; metis)
  next
    case False
    note nb = this
    show ?thesis
    proof (cases "?r = []")
      case True
      then show ?thesis using nb b r e by (simp add: joinPathFragments_def Let_def; metis append_Nil2)
    next
      case False
      then show ?thesis
        using nb b r j [of "CHR 0x5C"] j [of "CHR ''/''"]
        by (simp add: joinPathFragments_def Let_def is_sep_def)
    qed
  qed
qed

lemma stays_below_no_dotdot:
  "''..'' \<notin> set ss \<Longrightarrow> stays_below depth ss"
  by (induction ss arbitrary: depth) auto

text \<open>
  C8 (amended).  \<^verbatim>\<open>resolvePayloadSource\<close> returns the empty string when \<^verbatim>\<open>payloadDir\<close> is
  undefined or empty, and when the reference is undefined or, trimmed, is empty or holds a
  \<^verbatim>\<open><placeholder>\<close>.  Otherwise an absolute reference (drive letter, UNC prefix or
  leading slash) is returned trimmed and otherwise as it is, and \<^verbatim>\<open>advancedMode\<close> is not
  consulted; any other reference is joined onto \<^verbatim>\<open>payloadDir\<close>, so that the segments of
  the result are those of \<^verbatim>\<open>payloadDir\<close> followed by those of the reference, and the
  result is inside \<^verbatim>\<open>payloadDir\<close> whenever the reference has no \<^verbatim>\<open>..\<close> segment.  No
  reference is rejected for landing outside.
\<close>

theorem resolvePayloadSource_boundary:
  "resolvePayloadSource None (Some rel) = []
   \<and> resolvePayloadSource (Some base) None = []
   \<and> (if base = [] \<or> trim rel = [] \<or> placeholderPattern_test (trim rel)
       then resolvePayloadSource (Some base) (Some rel) = []
       else if isAbsolutePath (trim rel)
       then resolvePayloadSource (Some base) (Some rel) = trim rel
       else resolvePayloadSource (Some base) (Some rel) = joinPathFragments base (trim rel)
            \<and> segments (resolvePayloadSource (Some base) (Some rel))
                = segments base @ segments (trim rel)
            \<and> (if ''..'' \<in> set (segments (trim rel)) then True
                else inside_dir base (resolvePayloadSource (Some base) (Some rel))))"
proof -
  have n: "resolvePayloadSource None (Some rel) = []" "resolvePayloadSource (Some base) None = []"
    by (simp_all add: resolvePayloadSource_def trim_def)
  have s: "segments (joinPathFragments base (trim rel)) = segments base @ segments (trim rel)"
    by (rule segments_join)
  have i: "''..'' \<notin> set (segments (trim rel)) \<Longrightarrow> inside_dir base (joinPathFragments base (trim rel))"
    unfolding inside_dir_def s by (simp add: stays_below_no_dotdot)
  show ?thesis
  proof (cases "base = [] \<or> trim rel = [] \<or> placeholderPattern_test (trim rel)")
    case True
    then have "resolvePayloadSource (Some base) (Some rel) = []"
      by (auto simp: resolvePayloadSource_def Let_def)
    with True n show ?thesis by simp
  next
    case False
    note ok = this
    show ?thesis
    proof (cases "isAbsolutePath (trim rel)")
      case True
      then have "resolvePayloadSource (Some base) (Some rel) = trim rel"
        using ok by (simp add: resolvePayloadSource_def Let_def)
      with True ok n show ?thesis by simp
    next
      case False
      then have "resolvePayloadSource (Some base) (Some rel) = joinPathFragments base (trim rel)"
        using ok by (simp add: resolvePayloadSource_def Let_def)
      with False ok n s i show ?thesis by simp
    qed
  qed
qed

text \<open>The instances: an overlay of the Antigravity payload, which is joined and stays
  inside; an absolute reference; and a reference with a placeholder.\<close>

theorem resolvePayloadSource_boundary_witness:
  "resolvePayloadSource (Some ''payloads/antigravity'') (Some '' overlays/jetski.overlay.css'')
       = ''payloads/antigravity/overlays/jetski.overlay.css''
   \<and> inside_dir ''payloads/antigravity''
        (resolvePayloadSource (Some ''payloads/antigravity'') (Some '' overlays/jetski.overlay.css''))
   \<and> resolvePayloadSource (Some ''payloads'') (Some ''C:/work/theme.css '') = ''C:/work/theme.css''
   \<and> resolvePayloadSource (Some ''payloads'') (Some ''/a/<X>/b'') = []"
proof -
  have t: "trim '' overlays/jetski.overlay.css'' = ''overlays/jetski.overlay.css''"
    "trim ''C:/work/theme.css '' = ''C:/work/theme.css''" "trim ''/a/<X>/b'' = ''/a/<X>/b''"
    by (simp_all add: trim_def is_ws_def)
  have p: "\<not> placeholderPattern_test ''overlays/jetski.overlay.css''"
    "\<not> placeholderPattern_test ''C:/work/theme.css''" "placeholderPattern_test ''/a/<X>/b''"
    by simp_all
  have a: "\<not> isAbsolutePath ''overlays/jetski.overlay.css''" "isAbsolutePath ''C:/work/theme.css''"
    by (simp_all add: isAbsolutePath_def is_ascii_letter_def is_sep_def)
  have s: "segments ''overlays/jetski.overlay.css'' = [''overlays'', ''jetski.overlay.css'']"
    by (simp add: segments_def is_sep_def)
  have j: "joinPathFragments ''payloads/antigravity'' ''overlays/jetski.overlay.css''
            = ''payloads/antigravity/overlays/jetski.overlay.css''"
    by (simp add: joinPathFragments_def strip_trailing_seps_def strip_leading_seps_def is_sep_def Let_def)
  have 1: "resolvePayloadSource (Some ''payloads/antigravity'') (Some '' overlays/jetski.overlay.css'')
          = joinPathFragments ''payloads/antigravity'' ''overlays/jetski.overlay.css''
        \<and> inside_dir ''payloads/antigravity''
            (resolvePayloadSource (Some ''payloads/antigravity'') (Some '' overlays/jetski.overlay.css''))"
    using resolvePayloadSource_boundary [of "'' overlays/jetski.overlay.css''" "''payloads/antigravity''"]
    unfolding t using p a s by auto
  have 2: "resolvePayloadSource (Some ''payloads'') (Some ''C:/work/theme.css '') = ''C:/work/theme.css''"
    using resolvePayloadSource_boundary [of "''C:/work/theme.css ''" "''payloads''"]
    unfolding t using p a by auto
  have 3: "resolvePayloadSource (Some ''payloads'') (Some ''/a/<X>/b'') = []"
    using resolvePayloadSource_boundary [of "''/a/<X>/b''" "''payloads''"]
    unfolding t using p by auto
  from 1 2 3 show ?thesis unfolding t using j by auto
qed

text \<open>
  C8 as stated fails: importing a manifest whose \<^verbatim>\<open>advancedMode\<close> is false resolves the
  reference \<^verbatim>\<open>/etc/passwd\<close> to itself, and the reference \<^verbatim>\<open>../secrets/key.pem\<close> to a
  path that climbs out of \<^verbatim>\<open>payloads\<close>; neither is rejected.
\<close>

theorem absolute_reference_counterexample:
  "advancedMode passwd_manifest = Some False
   \<and> map payloadSource (filter (\<lambda>s. case s of CopyStep _ _ _ _ _ \<Rightarrow> True | _ \<Rightarrow> False)
        (st_steps (applyManifest sample_js sample_makeId passwd_manifest (sample_form []))))
       = [''/etc/passwd'']
   \<and> resolvePayloadSource (Some ''payloads'') (Some ''/etc/passwd'') = ''/etc/passwd''
   \<and> \<not> inside_dir ''payloads'' ''/etc/passwd''
   \<and> resolvePayloadSource (Some ''payloads'') (Some ''../secrets/key.pem'') = ''payloads/../secrets/key.pem''
   \<and> \<not> inside_dir ''payloads'' ''payloads/../secrets/key.pem''"
  by (simp add: passwd_manifest_def applyManifest_def manifestStepToUi_def str_or_empty_def
        resolvePayloadSource_def trim_def is_ws_def isAbsolutePath_def is_ascii_letter_def
        joinPathFragments_def strip_trailing_seps_def strip_leading_seps_def is_sep_def
        inside_dir_def segments_def Let_def)

section \<open>Properties of the patch scripts\<close>

lemma find_sub_None_iff: "find_sub pat doc = None \<longleftrightarrow> \<not> sublist pat doc"
  by (induction doc) (auto simp: sublist_Cons_right)

lemma find_sub_leftmost:
  "find_sub pat doc = Some (pre', rest') \<Longrightarrow> doc = pre @ pat @ rest \<Longrightarrow> length pre' \<le> length pre"
proof (induction doc arbitrary: pre pre')
  case Nil
  then show ?case by (auto split: if_splits)
next
  case (Cons c cs)
  show ?case
  proof (cases "prefix pat (c # cs)")
    case True
    then have "pre' = []" using Cons.prems(1) by auto
    then show ?thesis by simp
  next
    case False
    then obtain b where b: "find_sub pat cs = Some (b, rest')" and p: "pre' = c # b"
      using Cons.prems(1) by auto
    have "pre \<noteq> []" using False Cons.prems(2) by (auto simp: prefix_def)
    then obtain p2 where p2: "pre = c # p2" using Cons.prems(2) by (cases pre) auto
    then have "cs = p2 @ pat @ rest" using Cons.prems(2) by simp
    then have "length b \<le> length p2" using Cons.IH [OF b] by simp
    then show ?thesis using p p2 by simp
  qed
qed

lemma find_sub_first:
  assumes "pat \<noteq> []" and "\<not> sublist pat (pre @ butlast pat)"
  shows "find_sub pat (pre @ pat @ post) = Some (pre, post)"
proof -
  define doc where "doc = pre @ pat @ post"
  have "sublist pat doc" by (simp add: doc_def)
  then obtain pre' rest' where f: "find_sub pat doc = Some (pre', rest')"
    using find_sub_None_iff [of pat doc] by (cases "find_sub pat doc") auto
  then have d: "doc = pre' @ pat @ rest'" by (rule find_sub_decomp)
  have le: "length pre' \<le> length pre" using find_sub_leftmost [OF f] doc_def by blast
  have "length pre' = length pre"
  proof (rule ccontr)
    assume "length pre' \<noteq> length pre"
    with le have lt: "length pre' < length pre" by simp
    have pd: "prefix (pre' @ pat) doc" using d by (simp add: prefix_def)
    have "pat = butlast pat @ [last pat]" using assms(1) by simp
    then have "doc = (pre @ butlast pat) @ [last pat] @ post"
      unfolding doc_def by (metis append_assoc)
    then have pb: "prefix (pre @ butlast pat) doc" by (metis prefixI)
    have "length (pre' @ pat) \<le> length (pre @ butlast pat)"
      using lt assms(1) by (cases pat) auto
    with pd pb have "prefix (pre' @ pat) (pre @ butlast pat)"
      by (rule prefix_length_prefix)
    then obtain zs where "pre @ butlast pat = pre' @ pat @ zs" by (auto simp: prefix_def)
    then have "sublist pat (pre @ butlast pat)" by (metis sublist_appendI)
    with assms(2) show False by simp
  qed
  with d have "pre' = pre" and "rest' = post" unfolding doc_def by auto
  with f show ?thesis unfolding doc_def by simp
qed

lemma match_block_Some_iff:
  "match_block s e doc \<noteq> None \<longleftrightarrow> (\<exists>pre mid post. doc = pre @ s @ mid @ e @ post)"
proof
  assume "match_block s e doc \<noteq> None"
  then obtain pre mid post where "match_block s e doc = Some (pre, mid, post)" by auto
  then show "\<exists>pre mid post. doc = pre @ s @ mid @ e @ post"
    using match_block_decomp by blast
next
  assume "\<exists>pre mid post. doc = pre @ s @ mid @ e @ post"
  then obtain pre mid post where d: "doc = pre @ s @ mid @ e @ post" by blast
  then have "sublist s doc" by simp
  then obtain pre' rest' where f: "find_sub s doc = Some (pre', rest')"
    using find_sub_None_iff [of s doc] by (cases "find_sub s doc") auto
  then have d': "doc = pre' @ s @ rest'" by (rule find_sub_decomp)
  have le: "length pre' \<le> length pre" using find_sub_leftmost [OF f d] .
  have s1: "suffix rest' doc" using d' by (metis append_assoc suffixI)
  have s2: "suffix (mid @ e @ post) doc" using d by (metis append_assoc suffixI)
  have "length doc = length pre' + length s + length rest'" using d' by simp
  moreover have "length doc = length pre + length s + length (mid @ e @ post)" using d by simp
  ultimately have "length (mid @ e @ post) \<le> length rest'" using le by linarith
  with s2 s1 have "suffix (mid @ e @ post) rest'" by (rule suffix_length_suffix)
  then obtain us where "rest' = us @ mid @ e @ post" by (auto simp: suffix_def)
  then have "rest' = (us @ mid) @ e @ post" by simp
  then have "sublist e rest'" by (metis sublist_appendI)
  then obtain mid' post' where "find_sub e rest' = Some (mid', post')"
    using find_sub_None_iff [of e rest'] by (cases "find_sub e rest'") auto
  with f show "match_block s e doc \<noteq> None" by (simp add: match_block_def)
qed

lemma match_block_None: "\<not> sublist s doc \<Longrightarrow> match_block s e doc = None"
  using find_sub_None_iff [of s doc] by (simp add: match_block_def)

lemma sublist_across:
  assumes "x \<notin> set s" and "s \<noteq> []"
  shows "sublist s (a @ x # b) \<longleftrightarrow> sublist s a \<or> sublist s b"
proof
  assume "sublist s (a @ x # b)"
  then consider "sublist s a" | "sublist s (x # b)"
    | xs1 xs2 where "s = xs1 @ xs2" "suffix xs1 a" "prefix xs2 (x # b)"
    using sublist_append [of s a "x # b"] by blast
  then show "sublist s a \<or> sublist s b"
  proof cases
    case 1
    then show ?thesis by simp
  next
    case 2
    then have "prefix s (x # b) \<or> sublist s b" by (simp add: sublist_Cons_right)
    moreover have "\<not> prefix s (x # b)" using assms by (cases s) auto
    ultimately show ?thesis by simp
  next
    case 3
    have "xs2 = []" using 3(1,3) assms(1) by (cases xs2) auto
    then have "suffix s a" using 3(1,2) by simp
    then show ?thesis by (simp add: suffix_imp_sublist)
  qed
next
  assume "sublist s a \<or> sublist s b"
  then show "sublist s (a @ x # b)"
    by (metis sublist_append sublist_Cons_right)
qed

lemma lines_acc_sublist:
  assumes "CHR 0x0A \<notin> set s" and "s \<noteq> []"
  shows "CHR 0x0A \<notin> set cur \<Longrightarrow>
         list_ex (sublist s) (lines_acc cur doc) \<longleftrightarrow> sublist s (rev cur @ doc)"
proof (induction doc arbitrary: cur)
  case Nil
  then show ?case using assms(2) by simp
next
  case (Cons c cs)
  show ?case
  proof (cases "c = CHR 0x0A")
    case True
    have "list_ex (sublist s) (lines_acc [] cs) \<longleftrightarrow> sublist s cs"
      using Cons.IH [of "[]"] by simp
    then show ?thesis using True sublist_across [OF assms, of "rev cur" cs] by simp
  next
    case False
    then have "CHR 0x0A \<notin> set (c # cur)" using Cons.prems by simp
    then show ?thesis using False Cons.IH [of "c # cur"] by simp
  qed
qed

lemma split_on_single: "d \<notin> set s \<Longrightarrow> split_on d s = [s]"
  by (induction s) auto

lemma grep_qF_iff:
  "single_line_marker s \<Longrightarrow> \<not> option_like s \<Longrightarrow> grep_qF dashed s doc \<longleftrightarrow> sublist s doc"
  using lines_acc_sublist [of s "[]" doc]
  by (simp add: grep_qF_def single_line_marker_def split_on_single)

text \<open>
  The macOS script does what C1 says: when the first start marker is followed by an end
  marker, exactly the span from that start marker through the first end marker after it
  is replaced, and the text after it, with any further blocks, is kept.
\<close>

lemma update_file_block_replaces_first:
  assumes "fs pth = Some (pre @ s @ mid @ e @ post)" and "fs block_file = Some block"
    and "single_line_marker s" and "\<not> option_like s" and "e \<noteq> []"
    and "\<not> sublist s (pre @ butlast s)" and "\<not> sublist e (mid @ butlast e)"
  shows "update_file_block dashed fs pth s e block_file = Inr (fs(pth \<mapsto> pre @ block @ post))"
proof -
  have s: "s \<noteq> []" using assms(3) by (simp add: single_line_marker_def)
  have g: "grep_qF dashed s (pre @ s @ mid @ e @ post)"
    using grep_qF_iff [OF assms(3,4)] by simp
  have f1: "find_sub s (pre @ s @ mid @ e @ post) = Some (pre, mid @ e @ post)"
    using find_sub_first [OF s assms(6)] .
  have f2: "find_sub e (mid @ e @ post) = Some (mid, post)"
    using find_sub_first [OF assms(5) assms(7)] .
  have "perl_subst s e block (pre @ s @ mid @ e @ post) = pre @ block @ post"
    by (simp add: perl_subst_def match_block_def f1 f2)
  then show ?thesis using assms(1,2) g by (simp add: update_file_block_def)
qed

text \<open>
  C1.  On a file with two marked blocks the PowerShell script replaces both blocks
  (\<^verbatim>\<open>[regex]::Replace\<close> replaces every match), where the claim and the macOS script
  replace the first block only and leave the second as it is.
\<close>

theorem Update_FileBlock_replaces_every_block:
  "Update_FileBlock two_block_files ''workbench.css'' marker_S marker_E ''/*S*/N/*E*/''
     = two_block_files(''workbench.css'' \<mapsto> ''a{}/*S*/N/*E*/b{}/*S*/N/*E*/c{}'')
   \<and> update_file_block dashed two_block_files ''workbench.css'' marker_S marker_E ''overlay.css''
     = Inr (two_block_files(''workbench.css'' \<mapsto> ''a{}/*S*/N/*E*/b{}/*S*/2/*E*/c{}''))"
proof -
  have m: "ps_match marker_S marker_E ''a{}/*S*/1/*E*/b{}/*S*/2/*E*/c{}''"
    by (simp add: ps_match_def marker_S_def marker_E_def match_block_def to_lower_def)
  have r3: "ps_replace marker_S marker_E ''/*S*/N/*E*/'' ''c{}'' = ''c{}''"
    by (subst ps_replace.simps) (simp add: marker_S_def marker_E_def match_block_def)
  have r2: "ps_replace marker_S marker_E ''/*S*/N/*E*/'' ''b{}/*S*/2/*E*/c{}'' = ''b{}/*S*/N/*E*/c{}''"
    by (subst ps_replace.simps) (simp add: r3 [unfolded marker_S_def marker_E_def] marker_S_def marker_E_def match_block_def)
  have r1: "ps_replace marker_S marker_E ''/*S*/N/*E*/'' ''a{}/*S*/1/*E*/b{}/*S*/2/*E*/c{}''
             = ''a{}/*S*/N/*E*/b{}/*S*/N/*E*/c{}''"
    by (subst ps_replace.simps) (simp add: r2 [unfolded marker_S_def marker_E_def] marker_S_def marker_E_def match_block_def)
  have g: "grep_qF dashed marker_S ''a{}/*S*/1/*E*/b{}/*S*/2/*E*/c{}''"
    by (simp add: grep_qF_def option_like_def marker_S_def sublist_code)
  have p: "perl_subst marker_S marker_E ''/*S*/N/*E*/'' ''a{}/*S*/1/*E*/b{}/*S*/2/*E*/c{}''
             = ''a{}/*S*/N/*E*/b{}/*S*/2/*E*/c{}''"
    by (simp add: perl_subst_def marker_S_def marker_E_def match_block_def)
  show ?thesis
    using m r1 g p by (simp add: Update_FileBlock_def update_file_block_def two_block_files_def)
qed

lemma ps_match_None:
  "\<not> sublist (map to_lower s) (map to_lower doc) \<Longrightarrow> \<not> ps_match s e doc"
  by (simp add: ps_match_def match_block_None)

lemma ps_match_embedded:
  assumes "match_block s e block \<noteq> None"
  shows "ps_match s e (before @ block @ after)"
proof -
  obtain pre mid post where "block = pre @ s @ mid @ e @ post"
    using assms match_block_Some_iff by blast
  then have "map to_lower (before @ block @ after) =
      (map to_lower before @ map to_lower pre) @ map to_lower s @ map to_lower mid
      @ map to_lower e @ (map to_lower post @ map to_lower after)"
    by simp
  then show ?thesis unfolding ps_match_def match_block_Some_iff by blast
qed

lemma sublist_map:
  assumes "sublist s doc"
  shows "sublist (map f s) (map f doc)"
proof -
  obtain ps ss where "doc = ps @ s @ ss" using assms by (auto simp: sublist_def)
  then have "map f doc = map f ps @ map f s @ map f ss" by simp
  then show ?thesis by (metis sublist_appendI)
qed

text \<open>
  A marker that does not hold the character \<open>x\<close> and does not occur before it is looked
  for after it: the text up to \<open>x\<close> is passed over unchanged.
\<close>

lemma find_sub_past:
  assumes "x \<notin> set s" and "s \<noteq> []"
  shows "\<not> sublist s a \<Longrightarrow>
         find_sub s (a @ x # b) = map_option (\<lambda>(p, r). (a @ x # p, r)) (find_sub s b)"
proof (induction a)
  case Nil
  have "\<not> prefix s (x # b)" using assms by (cases s) auto
  then show ?case by (simp add: option.map_comp comp_def case_prod_unfold)
next
  case (Cons c cs)
  have n: "\<not> sublist s cs" using Cons.prems by (simp add: sublist_Cons_right)
  have "\<not> prefix s (c # cs @ x # b)"
  proof
    assume p: "prefix s (c # cs @ x # b)"
    have "sublist s ((c # cs) @ x # b)" using p by (simp add: prefix_imp_sublist)
    then have "sublist s (c # cs) \<or> sublist s b"
      using sublist_across [OF assms, of "c # cs" b] by simp
    then have sb: "sublist s b" using Cons.prems by simp
    have "prefix s (c # cs) \<or> prefix (c # cs) s"
      using p by (metis append_Cons prefix_same_cases prefixI)
    moreover have "\<not> prefix s (c # cs)" using Cons.prems by (auto dest: prefix_imp_sublist)
    ultimately have "prefix (c # cs) s" by simp
    then obtain t where t: "s = (c # cs) @ t" by (auto simp: prefix_def)
    then have "prefix t (x # b)" using p by simp
    moreover have "t \<noteq> []" using t Cons.prems by auto
    ultimately have "x \<in> set t" by (cases t) auto
    then show False using assms(1) t by simp
  qed
  then show ?case using Cons.IH [OF n]
    by (simp add: option.map_comp comp_def case_prod_unfold)
qed

lemma match_block_past:
  assumes "x \<notin> set s" and "s \<noteq> []" and "\<not> sublist s a"
  shows "match_block s e (a @ x # b)
           = map_option (\<lambda>(p, m, r). (a @ x # p, m, r)) (match_block s e b)"
  unfolding match_block_def find_sub_past [OF assms]
  by (auto split: option.splits)

lemma perl_subst_past:
  assumes "x \<notin> set s" and "s \<noteq> []" and "\<not> sublist s a"
  shows "perl_subst s e block (a @ x # b) = a @ x # perl_subst s e block b"
  unfolding perl_subst_def match_block_past [OF assms]
  by (auto split: option.splits)

lemma ps_replace_past:
  assumes "x \<notin> set s" and "s \<noteq> []" and "\<not> sublist s a"
  shows "ps_replace s e block (a @ x # b) = a @ x # ps_replace s e block b"
proof -
  have l: "ps_replace s e block (a @ x # b)
        = (case match_block s e (a @ x # b) of None \<Rightarrow> a @ x # b
           | Some (pre, mid, post) \<Rightarrow> pre @ block @ ps_replace s e block post)"
    using assms(2) by (subst ps_replace.simps) (auto split: option.splits)
  have r: "ps_replace s e block b
        = (case match_block s e b of None \<Rightarrow> b
           | Some (pre, mid, post) \<Rightarrow> pre @ block @ ps_replace s e block post)"
    using assms(2) by (subst ps_replace.simps) (auto split: option.splits)
  show ?thesis
    unfolding l match_block_past [OF assms]
    by (subst r) (auto split: option.splits)
qed

text \<open>Content that is the start marker, a body and the end marker, the end marker not
  beginning earlier: the block that the expression matches is all of it.\<close>

lemma match_block_whole:
  assumes "s \<noteq> []" and "e \<noteq> []" and "\<not> sublist e (mid @ butlast e)"
  shows "match_block s e (s @ mid @ e @ rest) = Some ([], mid, rest)"
proof -
  have "\<not> sublist s (butlast s)"
  proof
    assume "sublist s (butlast s)"
    then have "length s \<le> length (butlast s)" by (rule sublist_length_le)
    then show False using assms(1) by (cases s rule: rev_cases) simp_all
  qed
  then have "\<not> sublist s ([] @ butlast s)" by simp
  then have f1: "find_sub s ([] @ s @ (mid @ e @ rest)) = Some ([], mid @ e @ rest)"
    using find_sub_first [OF assms(1)] by blast
  have f2: "find_sub e (mid @ e @ rest) = Some (mid, rest)"
    using find_sub_first [OF assms(2,3)] .
  show ?thesis using f1 f2 by (simp add: match_block_def)
qed

lemma perl_subst_whole:
  assumes "s \<noteq> []" and "e \<noteq> []" and "\<not> sublist e (mid @ butlast e)"
  shows "perl_subst s e (s @ mid @ e) ((s @ mid @ e) @ rest) = (s @ mid @ e) @ rest"
  using match_block_whole [OF assms, of rest] by (simp add: perl_subst_def)

lemma ps_replace_whole:
  assumes "s \<noteq> []" and "e \<noteq> []" and "\<not> sublist e (mid @ butlast e)" and "\<not> sublist s rest"
  shows "ps_replace s e (s @ mid @ e) ((s @ mid @ e) @ rest) = (s @ mid @ e) @ rest"
proof -
  have "ps_replace s e (s @ mid @ e) rest = rest"
    using assms(4) by (subst ps_replace.simps) (simp add: match_block_None)
  then show ?thesis
    using assms(1) match_block_whole [OF assms(1,2,3), of rest]
    by (subst ps_replace.simps) simp
qed

lemma update_file_block_appends:
  assumes "fs pth = Some doc" and "fs block_file = Some block"
    and "single_line_marker s" and "\<not> option_like s" and "\<not> sublist s doc"
  shows "update_file_block dashed fs pth s e block_file
           = Inr (fs(pth \<mapsto> doc @ [CHR 0x0A] @ block @ [CHR 0x0A]))"
proof -
  have "\<not> grep_qF dashed s doc" using grep_qF_iff [OF assms(3,4)] assms(5) by simp
  then show ?thesis using assms(1,2) by (simp add: update_file_block_def)
qed

lemma update_file_block_again:
  assumes "fs pth = Some doc" and "fs block_file = Some block"
    and "single_line_marker s" and "\<not> option_like s" and "\<not> sublist s doc"
    and "sublist s block"
  shows "update_file_block dashed (fs(pth \<mapsto> doc @ [CHR 0x0A] @ block @ [CHR 0x0A])) pth s e block_file
           = Inr (fs(pth \<mapsto> doc @ [CHR 0x0A] @ perl_subst s e block (block @ [CHR 0x0A])))"
proof -
  have m: "CHR 0x0A \<notin> set s" "s \<noteq> []" using assms(3) by (simp_all add: single_line_marker_def)
  have "block \<noteq> doc" using assms(5,6) by auto
  then have "block_file \<noteq> pth" using assms(1,2) by auto
  then have b: "(fs(pth \<mapsto> doc @ [CHR 0x0A] @ block @ [CHR 0x0A])) block_file = Some block"
    using assms(2) by simp
  obtain ps ss where "block = ps @ s @ ss" using assms(6) by (auto simp: sublist_def)
  then have "doc @ [CHR 0x0A] @ block @ [CHR 0x0A] = (doc @ [CHR 0x0A] @ ps) @ s @ (ss @ [CHR 0x0A])"
    by simp
  then have "sublist s (doc @ [CHR 0x0A] @ block @ [CHR 0x0A])" by (metis sublist_appendI)
  then have g: "grep_qF dashed s (doc @ [CHR 0x0A] @ block @ [CHR 0x0A])"
    using grep_qF_iff [OF assms(3,4)] by simp
  have "perl_subst s e block (doc @ CHR 0x0A # (block @ [CHR 0x0A]))
          = doc @ CHR 0x0A # perl_subst s e block (block @ [CHR 0x0A])"
    using perl_subst_past [OF m assms(5)] .
  then show ?thesis using b g by (simp add: update_file_block_def)
qed

lemma Update_FileBlock_appends:
  assumes "fs pth = Some doc" and "\<not> sublist (map to_lower s) (map to_lower doc)"
  shows "Update_FileBlock fs pth s e block
           = fs(pth \<mapsto> doc @ [CHR 0x0D, CHR 0x0A] @ block @ [CHR 0x0D, CHR 0x0A])"
  using assms ps_match_None [of s doc e] by (simp add: Update_FileBlock_def)

lemma Update_FileBlock_again:
  assumes "single_line_marker s" and "\<not> sublist (map to_lower s) (map to_lower doc)"
    and "match_block s e block \<noteq> None"
  shows "Update_FileBlock (fs(pth \<mapsto> doc @ [CHR 0x0D, CHR 0x0A] @ block @ [CHR 0x0D, CHR 0x0A]))
             pth s e block
           = fs(pth \<mapsto> doc @ [CHR 0x0D, CHR 0x0A]
                         @ ps_replace s e block (block @ [CHR 0x0D, CHR 0x0A]))"
proof -
  have m: "CHR 0x0A \<notin> set s" "CHR 0x0D \<notin> set s" "s \<noteq> []"
    using assms(1) by (simp_all add: single_line_marker_def)
  have n: "\<not> sublist s doc" using assms(2) sublist_map by blast
  have e: "\<not> sublist s []" using m(3) by simp
  have p: "ps_match s e (doc @ [CHR 0x0D, CHR 0x0A] @ block @ [CHR 0x0D, CHR 0x0A])"
    using ps_match_embedded [OF assms(3), of "doc @ [CHR 0x0D, CHR 0x0A]" "[CHR 0x0D, CHR 0x0A]"]
    by simp
  have "ps_replace s e block (doc @ CHR 0x0D # ([] @ CHR 0x0A # (block @ [CHR 0x0D, CHR 0x0A])))
          = doc @ CHR 0x0D # ([] @ CHR 0x0A # ps_replace s e block (block @ [CHR 0x0D, CHR 0x0A]))"
    unfolding ps_replace_past [OF m(2,3) n] ps_replace_past [OF m(1,3) e] ..
  then show ?thesis using p by (simp add: Update_FileBlock_def)
qed

text \<open>
  C5 (amended).  Let the start marker be on one line (not empty, without CR or LF) and
  not occur in the file.

  \<^item> \<^verbatim>\<open>apply-macos.sh\<close>, for a marker that \<^verbatim>\<open>grep\<close> does not read as options (it does
    not begin with a dash, or is the dash alone): the script writes the old text, a line
    feed, the content and a line feed.  If the content holds the start marker, the next
    run with the same markers does not append again: it substitutes inside the appended
    copy and keeps the text before it.  If the content is the start marker, a body and
    the end marker, the end marker not empty and beginning nowhere earlier in the body
    and itself, the next run leaves the file as the first run wrote it.

  \<^item> \<^verbatim>\<open>apply.ps1\<close>, for a marker that does not occur in another letter case either: the
    same with CR LF for the line feed, the next run replacing inside the appended copy
    when the content holds the start marker followed by the end marker.
\<close>

theorem patch_appends_when_marker_absent:
  assumes "fs pth = Some doc" and "fs block_file = Some block"
    and "single_line_marker s" and "\<not> sublist s doc"
  shows "(if option_like s then True
          else update_file_block dashed fs pth s e block_file
                 = Inr (fs(pth \<mapsto> doc @ [CHR 0x0A] @ block @ [CHR 0x0A]))
             \<and> (if sublist s block
                 then update_file_block dashed (fs(pth \<mapsto> doc @ [CHR 0x0A] @ block @ [CHR 0x0A]))
                          pth s e block_file
                        = Inr (fs(pth \<mapsto> doc @ [CHR 0x0A] @ perl_subst s e block (block @ [CHR 0x0A])))
                 else True)
             \<and> (if block = s @ mid @ e \<and> e \<noteq> [] \<and> \<not> sublist e (mid @ butlast e)
                 then update_file_block dashed (fs(pth \<mapsto> doc @ [CHR 0x0A] @ block @ [CHR 0x0A]))
                          pth s e block_file
                        = Inr (fs(pth \<mapsto> doc @ [CHR 0x0A] @ block @ [CHR 0x0A]))
                 else True))
       \<and> (if sublist (map to_lower s) (map to_lower doc) then True
          else Update_FileBlock fs pth s e block
                 = fs(pth \<mapsto> doc @ [CHR 0x0D, CHR 0x0A] @ block @ [CHR 0x0D, CHR 0x0A])
             \<and> (if match_block s e block \<noteq> None
                 then Update_FileBlock
                          (fs(pth \<mapsto> doc @ [CHR 0x0D, CHR 0x0A] @ block @ [CHR 0x0D, CHR 0x0A]))
                          pth s e block
                        = fs(pth \<mapsto> doc @ [CHR 0x0D, CHR 0x0A]
                                      @ ps_replace s e block (block @ [CHR 0x0D, CHR 0x0A]))
                 else True)
             \<and> (if block = s @ mid @ e \<and> e \<noteq> [] \<and> \<not> sublist e (mid @ butlast e)
                 then Update_FileBlock
                          (fs(pth \<mapsto> doc @ [CHR 0x0D, CHR 0x0A] @ block @ [CHR 0x0D, CHR 0x0A]))
                          pth s e block
                        = fs(pth \<mapsto> doc @ [CHR 0x0D, CHR 0x0A] @ block @ [CHR 0x0D, CHR 0x0A])
                 else True))"
proof -
  have m: "CHR 0x0A \<notin> set s" "CHR 0x0D \<notin> set s" "s \<noteq> []"
    using assms(3) by (simp_all add: single_line_marker_def)
  have whole: "sublist s block" "match_block s e block \<noteq> None"
      "perl_subst s e block (block @ [CHR 0x0A]) = block @ [CHR 0x0A]"
      "ps_replace s e block (block @ [CHR 0x0D, CHR 0x0A]) = block @ [CHR 0x0D, CHR 0x0A]"
    if w: "block = s @ mid @ e" "e \<noteq> []" "\<not> sublist e (mid @ butlast e)"
  proof -
    show "sublist s block" unfolding w(1) by (metis append_Nil sublist_appendI)
    show "match_block s e block \<noteq> None"
      unfolding match_block_Some_iff using w(1) by (metis append_Nil append_Nil2)
    show "perl_subst s e block (block @ [CHR 0x0A]) = block @ [CHR 0x0A]"
      unfolding w(1) by (rule perl_subst_whole [OF m(3) w(2,3)])
    have "\<not> sublist s [CHR 0x0D, CHR 0x0A]"
      using m by (auto simp: sublist_Cons_right prefix_Cons)
    then show "ps_replace s e block (block @ [CHR 0x0D, CHR 0x0A]) = block @ [CHR 0x0D, CHR 0x0A]"
      unfolding w(1) by (rule ps_replace_whole [OF m(3) w(2,3)])
  qed
  let ?clean = "block = s @ mid @ e \<and> e \<noteq> [] \<and> \<not> sublist e (mid @ butlast e)"
  have mac: "update_file_block dashed fs pth s e block_file
                 = Inr (fs(pth \<mapsto> doc @ [CHR 0x0A] @ block @ [CHR 0x0A]))
             \<and> (if sublist s block
                 then update_file_block dashed (fs(pth \<mapsto> doc @ [CHR 0x0A] @ block @ [CHR 0x0A]))
                          pth s e block_file
                        = Inr (fs(pth \<mapsto> doc @ [CHR 0x0A] @ perl_subst s e block (block @ [CHR 0x0A])))
                 else True)
             \<and> (if ?clean
                 then update_file_block dashed (fs(pth \<mapsto> doc @ [CHR 0x0A] @ block @ [CHR 0x0A]))
                          pth s e block_file
                        = Inr (fs(pth \<mapsto> doc @ [CHR 0x0A] @ block @ [CHR 0x0A]))
                 else True)"
    if o: "\<not> option_like s"
  proof (intro conjI)
    show "update_file_block dashed fs pth s e block_file
            = Inr (fs(pth \<mapsto> doc @ [CHR 0x0A] @ block @ [CHR 0x0A]))"
      by (rule update_file_block_appends [OF assms(1,2,3) o assms(4)])
    show "if sublist s block
          then update_file_block dashed (fs(pth \<mapsto> doc @ [CHR 0x0A] @ block @ [CHR 0x0A]))
                  pth s e block_file
                = Inr (fs(pth \<mapsto> doc @ [CHR 0x0A] @ perl_subst s e block (block @ [CHR 0x0A])))
          else True"
      using update_file_block_again [OF assms(1,2,3) o assms(4)] by simp
    show "if ?clean
          then update_file_block dashed (fs(pth \<mapsto> doc @ [CHR 0x0A] @ block @ [CHR 0x0A]))
                  pth s e block_file
                = Inr (fs(pth \<mapsto> doc @ [CHR 0x0A] @ block @ [CHR 0x0A]))
          else True"
    proof (cases ?clean)
      case True
      then have w: "block = s @ mid @ e" "e \<noteq> []" "\<not> sublist e (mid @ butlast e)" by simp_all
      show ?thesis
        using True update_file_block_again [OF assms(1,2,3) o assms(4) whole(1) [OF w], of dashed e]
          whole(3) [OF w]
        by simp
    next
      case False
      show ?thesis unfolding if_not_P [OF False] ..
    qed
  qed
  have ps: "Update_FileBlock fs pth s e block
                 = fs(pth \<mapsto> doc @ [CHR 0x0D, CHR 0x0A] @ block @ [CHR 0x0D, CHR 0x0A])
             \<and> (if match_block s e block \<noteq> None
                 then Update_FileBlock
                          (fs(pth \<mapsto> doc @ [CHR 0x0D, CHR 0x0A] @ block @ [CHR 0x0D, CHR 0x0A]))
                          pth s e block
                        = fs(pth \<mapsto> doc @ [CHR 0x0D, CHR 0x0A]
                                      @ ps_replace s e block (block @ [CHR 0x0D, CHR 0x0A]))
                 else True)
             \<and> (if ?clean
                 then Update_FileBlock
                          (fs(pth \<mapsto> doc @ [CHR 0x0D, CHR 0x0A] @ block @ [CHR 0x0D, CHR 0x0A]))
                          pth s e block
                        = fs(pth \<mapsto> doc @ [CHR 0x0D, CHR 0x0A] @ block @ [CHR 0x0D, CHR 0x0A])
                 else True)"
    if l: "\<not> sublist (map to_lower s) (map to_lower doc)"
  proof (intro conjI)
    show "Update_FileBlock fs pth s e block
            = fs(pth \<mapsto> doc @ [CHR 0x0D, CHR 0x0A] @ block @ [CHR 0x0D, CHR 0x0A])"
      using Update_FileBlock_appends [of fs pth doc s e block] assms(1) l by simp
    show "if match_block s e block \<noteq> None
          then Update_FileBlock
                  (fs(pth \<mapsto> doc @ [CHR 0x0D, CHR 0x0A] @ block @ [CHR 0x0D, CHR 0x0A]))
                  pth s e block
                = fs(pth \<mapsto> doc @ [CHR 0x0D, CHR 0x0A]
                              @ ps_replace s e block (block @ [CHR 0x0D, CHR 0x0A]))
          else True"
      using Update_FileBlock_again [of s doc e block fs pth] assms(3) l by simp
    show "if ?clean
          then Update_FileBlock
                  (fs(pth \<mapsto> doc @ [CHR 0x0D, CHR 0x0A] @ block @ [CHR 0x0D, CHR 0x0A]))
                  pth s e block
                = fs(pth \<mapsto> doc @ [CHR 0x0D, CHR 0x0A] @ block @ [CHR 0x0D, CHR 0x0A])
          else True"
    proof (cases ?clean)
      case True
      then have w: "block = s @ mid @ e" "e \<noteq> []" "\<not> sublist e (mid @ butlast e)" by simp_all
      show ?thesis
        using True Update_FileBlock_again [of s doc e block fs pth] assms(3) l whole(2) [OF w]
          whole(4) [OF w]
        by simp
    next
      case False
      show ?thesis unfolding if_not_P [OF False] ..
    qed
  qed
  show ?thesis
  proof (intro conjI)
    show "if option_like s then True
          else update_file_block dashed fs pth s e block_file
                 = Inr (fs(pth \<mapsto> doc @ [CHR 0x0A] @ block @ [CHR 0x0A]))
             \<and> (if sublist s block
                 then update_file_block dashed (fs(pth \<mapsto> doc @ [CHR 0x0A] @ block @ [CHR 0x0A]))
                          pth s e block_file
                        = Inr (fs(pth \<mapsto> doc @ [CHR 0x0A] @ perl_subst s e block (block @ [CHR 0x0A])))
                 else True)
             \<and> (if ?clean
                 then update_file_block dashed (fs(pth \<mapsto> doc @ [CHR 0x0A] @ block @ [CHR 0x0A]))
                          pth s e block_file
                        = Inr (fs(pth \<mapsto> doc @ [CHR 0x0A] @ block @ [CHR 0x0A]))
                 else True)"
    proof (cases "option_like s")
      case True
      show ?thesis unfolding if_P [OF True] ..
    next
      case False
      show ?thesis unfolding if_not_P [OF False] by (rule mac [OF False])
    qed
    show "if sublist (map to_lower s) (map to_lower doc) then True
          else Update_FileBlock fs pth s e block
                 = fs(pth \<mapsto> doc @ [CHR 0x0D, CHR 0x0A] @ block @ [CHR 0x0D, CHR 0x0A])
             \<and> (if match_block s e block \<noteq> None
                 then Update_FileBlock
                          (fs(pth \<mapsto> doc @ [CHR 0x0D, CHR 0x0A] @ block @ [CHR 0x0D, CHR 0x0A]))
                          pth s e block
                        = fs(pth \<mapsto> doc @ [CHR 0x0D, CHR 0x0A]
                                      @ ps_replace s e block (block @ [CHR 0x0D, CHR 0x0A]))
                 else True)
             \<and> (if ?clean
                 then Update_FileBlock
                          (fs(pth \<mapsto> doc @ [CHR 0x0D, CHR 0x0A] @ block @ [CHR 0x0D, CHR 0x0A]))
                          pth s e block
                        = fs(pth \<mapsto> doc @ [CHR 0x0D, CHR 0x0A] @ block @ [CHR 0x0D, CHR 0x0A])
                 else True)"
    proof (cases "sublist (map to_lower s) (map to_lower doc)")
      case True
      show ?thesis unfolding if_P [OF True] ..
    next
      case False
      show ?thesis unfolding if_not_P [OF False] by (rule ps [OF False])
    qed
  qed
qed

lemma fresh_no_marker:
  "\<not> sublist marker_S ''body{}''"
  "\<not> sublist (map to_lower marker_S) (map to_lower ''body{}'')"
  by (simp_all add: marker_S_def sublist_code to_lower_def)

text \<open>The instance: a style sheet without block, and an overlay that is the start marker,
  a rule and the end marker.  Both scripts append it, and their next run changes nothing.\<close>

theorem patch_appends_when_marker_absent_witness:
  "fresh_files ''workbench.css'' = Some ''body{}''
   \<and> fresh_files ''overlay.css'' = Some ''/*S*/x{}/*E*/''
   \<and> single_line_marker marker_S \<and> \<not> option_like marker_S \<and> \<not> sublist marker_S ''body{}''
   \<and> update_file_block rejecting_grep fresh_files ''workbench.css'' marker_S marker_E ''overlay.css''
       = Inr (fresh_files(''workbench.css'' \<mapsto> ''body{}'' @ [CHR 0x0A] @ ''/*S*/x{}/*E*/'' @ [CHR 0x0A]))
   \<and> update_file_block rejecting_grep
        (fresh_files(''workbench.css'' \<mapsto> ''body{}'' @ [CHR 0x0A] @ ''/*S*/x{}/*E*/'' @ [CHR 0x0A]))
        ''workbench.css'' marker_S marker_E ''overlay.css''
       = Inr (fresh_files(''workbench.css'' \<mapsto> ''body{}'' @ [CHR 0x0A] @ ''/*S*/x{}/*E*/'' @ [CHR 0x0A]))
   \<and> Update_FileBlock fresh_files ''workbench.css'' marker_S marker_E ''/*S*/x{}/*E*/''
       = fresh_files(''workbench.css'' \<mapsto>
           ''body{}'' @ [CHR 0x0D, CHR 0x0A] @ ''/*S*/x{}/*E*/'' @ [CHR 0x0D, CHR 0x0A])
   \<and> Update_FileBlock
        (fresh_files(''workbench.css'' \<mapsto>
           ''body{}'' @ [CHR 0x0D, CHR 0x0A] @ ''/*S*/x{}/*E*/'' @ [CHR 0x0D, CHR 0x0A]))
        ''workbench.css'' marker_S marker_E ''/*S*/x{}/*E*/''
       = fresh_files(''workbench.css'' \<mapsto>
           ''body{}'' @ [CHR 0x0D, CHR 0x0A] @ ''/*S*/x{}/*E*/'' @ [CHR 0x0D, CHR 0x0A])"
proof -
  have f: "fresh_files ''workbench.css'' = Some ''body{}''"
    "fresh_files ''overlay.css'' = Some ''/*S*/x{}/*E*/''"
    by (simp_all add: fresh_files_def)
  have m: "single_line_marker marker_S"
    by (simp add: single_line_marker_def marker_S_def)
  have o: "\<not> option_like marker_S"
    by (simp add: option_like_def marker_S_def)
  show ?thesis
    using patch_appends_when_marker_absent
            [OF f m fresh_no_marker(1), of rejecting_grep marker_E "''x{}''"]
      f m o fresh_no_marker
    by (simp add: marker_S_def marker_E_def option_like_def sublist_code to_lower_def
          match_block_def perl_subst_def)
qed

text \<open>
  C5 as stated fails.  The scripts add no markers of their own: content that does not
  hold the start marker is appended again by the next run.  With a start marker of two
  lines that is absent, \<^verbatim>\<open>grep\<close> finds its first line, the expression matches nothing, and
  nothing is appended.  With a start marker that begins with a dash and a \<^verbatim>\<open>grep\<close> that
  rejects it as an unknown option, the macOS script appends on every run, though the
  content holds the markers.  With the start marker in the file in lower case only, the
  PowerShell script finds a match, replaces nothing, and appends nothing.
\<close>

theorem reapplied_patch_counterexample:
  "(\<not> sublist marker_S ''body{}''
    \<and> update_file_block rejecting_grep fresh_files ''workbench.css'' marker_S marker_E ''plain.css''
        = Inr (fresh_files(''workbench.css'' \<mapsto> ''body{}'' @ [CHR 0x0A] @ ''x{}'' @ [CHR 0x0A]))
    \<and> update_file_block rejecting_grep
         (fresh_files(''workbench.css'' \<mapsto> ''body{}'' @ [CHR 0x0A] @ ''x{}'' @ [CHR 0x0A]))
         ''workbench.css'' marker_S marker_E ''plain.css''
        = Inr (fresh_files(''workbench.css'' \<mapsto>
            ''body{}'' @ [CHR 0x0A] @ ''x{}'' @ [CHR 0x0A] @ [CHR 0x0A] @ ''x{}'' @ [CHR 0x0A])))
   \<and> (\<not> sublist two_line_S ''xAx''
      \<and> update_file_block rejecting_grep two_line_files ''notes.txt'' two_line_S marker_E ''block.txt''
          = Inr (two_line_files(''notes.txt'' \<mapsto> ''xAx'')))
   \<and> (\<not> sublist ''--S--'' ''body{}''
      \<and> update_file_block rejecting_grep dashed_files ''workbench.css'' ''--S--'' ''--E--'' ''overlay.css''
          = Inr (dashed_files(''workbench.css'' \<mapsto> ''body{}'' @ [CHR 0x0A] @ ''--S--x{}--E--'' @ [CHR 0x0A]))
      \<and> update_file_block rejecting_grep
           (dashed_files(''workbench.css'' \<mapsto> ''body{}'' @ [CHR 0x0A] @ ''--S--x{}--E--'' @ [CHR 0x0A]))
           ''workbench.css'' ''--S--'' ''--E--'' ''overlay.css''
          = Inr (dashed_files(''workbench.css'' \<mapsto>
              ''body{}'' @ [CHR 0x0A] @ ''--S--x{}--E--'' @ [CHR 0x0A]
              @ [CHR 0x0A] @ ''--S--x{}--E--'' @ [CHR 0x0A])))
   \<and> (\<not> sublist marker_S ''/*s*/old/*e*/''
      \<and> Update_FileBlock lower_case_files ''workbench.css'' marker_S marker_E ''/*S*/x{}/*E*/''
          = lower_case_files(''workbench.css'' \<mapsto> ''/*s*/old/*e*/''))"
proof -
  have a: "\<not> sublist marker_S ''body{}''
    \<and> update_file_block rejecting_grep fresh_files ''workbench.css'' marker_S marker_E ''plain.css''
        = Inr (fresh_files(''workbench.css'' \<mapsto> ''body{}'' @ [CHR 0x0A] @ ''x{}'' @ [CHR 0x0A]))
    \<and> update_file_block rejecting_grep
         (fresh_files(''workbench.css'' \<mapsto> ''body{}'' @ [CHR 0x0A] @ ''x{}'' @ [CHR 0x0A]))
         ''workbench.css'' marker_S marker_E ''plain.css''
        = Inr (fresh_files(''workbench.css'' \<mapsto>
            ''body{}'' @ [CHR 0x0A] @ ''x{}'' @ [CHR 0x0A] @ [CHR 0x0A] @ ''x{}'' @ [CHR 0x0A]))"
    by (simp add: fresh_no_marker update_file_block_def fresh_files_def grep_qF_def option_like_def
          marker_S_def sublist_code)
  have b: "\<not> sublist two_line_S ''xAx''
      \<and> update_file_block rejecting_grep two_line_files ''notes.txt'' two_line_S marker_E ''block.txt''
          = Inr (two_line_files(''notes.txt'' \<mapsto> ''xAx''))"
    by (simp add: update_file_block_def two_line_files_def two_line_S_def grep_qF_def option_like_def
          perl_subst_def match_block_def marker_E_def sublist_code)
  have c: "\<not> sublist ''--S--'' ''body{}''
      \<and> update_file_block rejecting_grep dashed_files ''workbench.css'' ''--S--'' ''--E--'' ''overlay.css''
          = Inr (dashed_files(''workbench.css'' \<mapsto> ''body{}'' @ [CHR 0x0A] @ ''--S--x{}--E--'' @ [CHR 0x0A]))
      \<and> update_file_block rejecting_grep
           (dashed_files(''workbench.css'' \<mapsto> ''body{}'' @ [CHR 0x0A] @ ''--S--x{}--E--'' @ [CHR 0x0A]))
           ''workbench.css'' ''--S--'' ''--E--'' ''overlay.css''
          = Inr (dashed_files(''workbench.css'' \<mapsto>
              ''body{}'' @ [CHR 0x0A] @ ''--S--x{}--E--'' @ [CHR 0x0A]
              @ [CHR 0x0A] @ ''--S--x{}--E--'' @ [CHR 0x0A]))"
    by (simp add: update_file_block_def dashed_files_def grep_qF_def option_like_def
          rejecting_grep_def sublist_code)
  have l: "char_of (115 :: nat) = CHR ''s''" "char_of (101 :: nat) = CHR ''e''"
    by (simp_all add: char_of_def bit_Suc_0_iff)
  have m: "ps_match marker_S marker_E ''/*s*/old/*e*/''"
    by (simp add: ps_match_def marker_S_def marker_E_def match_block_def to_lower_def l)
  have r: "ps_replace marker_S marker_E ''/*S*/x{}/*E*/'' ''/*s*/old/*e*/'' = ''/*s*/old/*e*/''"
    by (subst ps_replace.simps) (simp add: marker_S_def marker_E_def match_block_def)
  have d: "\<not> sublist marker_S ''/*s*/old/*e*/''
      \<and> Update_FileBlock lower_case_files ''workbench.css'' marker_S marker_E ''/*S*/x{}/*E*/''
          = lower_case_files(''workbench.css'' \<mapsto> ''/*s*/old/*e*/'')"
    using m r by (simp add: Update_FileBlock_def lower_case_files_def marker_S_def sublist_code)
  from a b c d show ?thesis by (simp only: simp_thms)
qed

section \<open>Properties of the presets\<close>

text \<open>
  C10.  The normalisation is not total on parsed JSON: for a copy step without
  \<^verbatim>\<open>payloadRel\<close> whose \<^verbatim>\<open>src\<close> is an object with an own \<^verbatim>\<open>toString\<close> property,
  \<^verbatim>\<open>String(raw.src ?? '')\<close> throws a TypeError, which leaves \<^verbatim>\<open>coercePresetSteps\<close> and
  \<^verbatim>\<open>normalizePresetData\<close>.
\<close>

theorem normalizePresetData_throws:
  "normalizePresetData sample_js hostile_preset = Inl TypeError"
  by (simp add: normalizePresetData_def hostile_preset_def coercePresetSteps_def coerce_step_def
        string_or_String_def String_or_empty_def Let_def)

lemma those_map_total:
  "(\<And>x. x \<in> set xs \<Longrightarrow> f x \<noteq> None) \<Longrightarrow> those (map f xs) \<noteq> None"
  by (induction xs) (auto split: option.splits)

lemma js_String_total: "plain_json v \<Longrightarrow> js_String js v \<noteq> None"
proof (induction v)
  case (JArr xs)
  have "(case x of JUndefined \<Rightarrow> Some [] | JNull \<Rightarrow> Some [] | _ \<Rightarrow> js_String js x) \<noteq> None"
    if "x \<in> set xs" for x
  proof -
    have h: "js_String js x \<noteq> None" using JArr that by (auto simp: list_all_iff)
    show ?thesis by (cases x) (use h in \<open>simp_all del: js_String.simps\<close>)
  qed
  then have "those (map (\<lambda>x. case x of JUndefined \<Rightarrow> Some [] | JNull \<Rightarrow> Some []
                            | _ \<Rightarrow> js_String js x) xs) \<noteq> None"
    by (rule those_map_total)
  then show ?case by auto
qed auto

lemma plain_get_prop: "plain_json v \<Longrightarrow> plain_json (get_prop v k)"
proof (cases v)
  case (JObj kvs)
  assume p: "plain_json v"
  show ?thesis
  proof (cases "map_of kvs k")
    case None
    then show ?thesis using JObj by simp
  next
    case (Some w)
    then have "(k, w) \<in> set kvs" by (rule map_of_SomeD)
    then have "plain_json w" using p JObj by (auto simp: list_all_iff)
    then show ?thesis using JObj Some by simp
  qed
qed auto

lemma plain_replacementList: "plain_json r \<Longrightarrow> list_all plain_json (replacementList r)"
  by (cases r) (auto simp: replacementList_def list_all_iff set_Object_entries)

lemma String_or_empty_total: "plain_json v \<Longrightarrow> String_or_empty js v \<noteq> None"
  using js_String_total [of v js] by (cases v) (auto simp: String_or_empty_def)

lemma string_or_String_total: "plain_json w \<Longrightarrow> string_or_String js v w \<noteq> None"
  using String_or_empty_total [of w js] by (cases v) (auto simp: string_or_String_def)

lemma coerce_pair_total: "plain_json p \<Longrightarrow> coerce_pair js p \<noteq> None"
  using String_or_empty_total [OF plain_get_prop, of p js "''key''"]
    String_or_empty_total [OF plain_get_prop, of p js "''value''"]
  by (auto simp: coerce_pair_def split: option.splits)

lemma args_total:
  assumes "plain_json v"
  shows "(case v of
            JArr xs \<Rightarrow> map_option (join '', '') (those (map (js_String js) xs))
          | JStr a \<Rightarrow> Some a
          | _ \<Rightarrow> Some []) \<noteq> None"
proof (cases v)
  case (JArr xs)
  have "js_String js x \<noteq> None" if "x \<in> set xs" for x
  proof -
    have "plain_json x" using that assms JArr by (simp add: list_all_iff)
    then show ?thesis by (rule js_String_total)
  qed
  then have "those (map (js_String js) xs) \<noteq> None" by (rule those_map_total)
  then show ?thesis using JArr by auto
qed auto

lemma coerce_step_total:
  assumes "plain_json step"
  shows "\<exists>r. coerce_step js step = Inr r"
proof (cases step)
  case (JObj kvs)
  let ?raw = "JObj kvs"
  have p: "plain_json ?raw" using assms JObj by simp
  have r1: "\<And>v k. string_or_String js v (get_prop ?raw k) \<noteq> None"
    using string_or_String_total [OF plain_get_prop [OF p]] by blast
  have "coerce_pair js x \<noteq> None"
    if "x \<in> set (replacementList (get_prop ?raw ''replacements''))" for x
  proof -
    have "plain_json x"
      using that plain_replacementList [OF plain_get_prop [OF p], of "''replacements''"]
      by (simp add: list_all_iff del: get_prop.simps)
    then show ?thesis by (rule coerce_pair_total)
  qed
  then have r2: "those (map (coerce_pair js) (replacementList (get_prop ?raw ''replacements''))) \<noteq> None"
    by (rule those_map_total)
  have r3: "(case get_prop ?raw ''args'' of
            JArr xs \<Rightarrow> map_option (join '', '') (those (map (js_String js) xs))
          | JStr a \<Rightarrow> Some a
          | _ \<Rightarrow> Some []) \<noteq> None"
    using args_total [OF plain_get_prop [OF p]] by blast
  show ?thesis
  proof (cases "get_prop ?raw ''type''")
    case (JStr ty)
    obtain rel1 where rel1: "string_or_String js (get_prop ?raw ''payloadRel'') (get_prop ?raw ''src'') = Some rel1"
      using r1 by blast
    obtain rel2 where rel2: "string_or_String js (get_prop ?raw ''contentRel'') (get_prop ?raw ''contentFile'') = Some rel2"
      using r1 by blast
    obtain rel3 where rel3: "string_or_String js (get_prop ?raw ''inputRel'') (get_prop ?raw ''inputFile'') = Some rel3"
      using r1 by blast
    obtain vr where vr: "string_or_String js (get_prop ?raw ''valueRaw'') (get_prop ?raw ''valueRaw'') = Some vr"
      using r1 by blast
    obtain pairs where pairs: "those (map (coerce_pair js) (replacementList (get_prop ?raw ''replacements''))) = Some pairs"
      using r2 by blast
    obtain a where a: "(case get_prop ?raw ''args'' of
            JArr xs \<Rightarrow> map_option (join '', '') (those (map (js_String js) xs))
          | JStr a \<Rightarrow> Some a
          | _ \<Rightarrow> Some []) = Some a"
      using r3 by blast
    obtain vt raw vb where ui: "valueToUi js (get_prop ?raw ''value'') = (vt, raw, vb)"
      by (cases "valueToUi js (get_prop ?raw ''value'')") auto
    show ?thesis
      unfolding JObj coerce_step_def
      by (simp add: JStr rel1 rel2 rel3 vr pairs a ui Let_def del: get_prop.simps)
  qed (simp_all add: JObj coerce_step_def Let_def del: get_prop.simps)
qed (simp_all add: coerce_step_def)

lemma coerce_all_total:
  "list_all plain_json xs \<Longrightarrow> \<exists>ss. coerce_all js xs = Inr ss"
proof (induction xs)
  case Nil
  then show ?case by simp
next
  case (Cons x xs)
  obtain r where "coerce_step js x = Inr r" using Cons.prems coerce_step_total by auto
  moreover obtain ss where "coerce_all js xs = Inr ss" using Cons by auto
  ultimately show ?case by simp
qed

text \<open>
  Apart from that conversion the normalisation is total: on a value in which no object
  has an own \<^verbatim>\<open>toString\<close> property it returns preset data, with the identity fields
  taken from the input when they are strings and defaulted otherwise.
\<close>

lemma normalizePresetData_total:
  assumes "plain_json raw"
  shows "\<exists>ss. normalizePresetData js raw =
           Inr \<lparr>preset_appName = string_or (get_prop raw ''appName'') ''My App'',
               preset_version = string_or (get_prop raw ''version'') ''1.0.0'',
               preset_publisher = string_or (get_prop raw ''publisher'') ''Misfit'',
               preset_description = string_or (get_prop raw ''description'') ''Created with Misfit Studio'',
               preset_advancedMode = truthy js (get_prop raw ''advancedMode''),
               preset_payloadDir = (case get_prop raw ''payloadDir'' of JStr s \<Rightarrow> Some s | _ \<Rightarrow> None),
               preset_steps = ss\<rparr>"
proof -
  have "plain_json (get_prop raw ''steps'')" using assms by (rule plain_get_prop)
  then have "\<exists>ss. coercePresetSteps js (get_prop raw ''steps'') = Inr ss"
    using coerce_all_total [of _ js]
    by (cases "get_prop raw ''steps''") (auto simp: coercePresetSteps_def)
  then show ?thesis by (auto simp: normalizePresetData_def)
qed

section \<open>Properties of the round trip\<close>












end
